theory Spec2Isabelle
  imports Main
begin

section \<open>Embedded dashboard assets: the bootstrap of package dashboardassets\<close>

text \<open>
  The package ships a gzip-compressed tar archive inside the binary. \<open>Ensure\<close> compares
  the version recorded in a marker file with the running version and, when they differ,
  extracts the archive below the assets directory and rewrites the marker.

  The Go code talks to the operating system, to \<open>path/filepath\<close>, \<open>archive/tar\<close>,
  \<open>compress/gzip\<close> and \<open>encoding/json\<close>. These collaborators are modelled first; the five
  functions of the package follow, each next to the Go text it embeds.
\<close>

subsection \<open>Errors\<close>

text \<open>
  An \<open>error\<close> value of Go. \<open>WrapWithMessage\<close> is \<open>sperr.WrapWithMessage\<close> applied to a
  non-nil error, \<open>SperrNew\<close> is \<open>sperr.New\<close> with the formatted message, \<open>Panic\<close> is a
  panic raised by a helper that does not return its error.
\<close>

datatype error =
    ENOENT
  | ENOTDIR
  | EISDIR
  | EACCES
  | ENOSPC
  | ErrNotExist
  | DecodeError string
  | SyntaxError
  | UnmarshalTypeError
  | SperrNew string
  | WrapWithMessage error string
  | Panic error

subsection \<open>Paths: \<open>filepath.Clean\<close> and \<open>filepath.Join\<close> (Unix)\<close>

text \<open>
  A cleaned path is kept as its list of elements together with the flag saying whether it
  is rooted: \<open>(True, [''a'', ''b''])\<close> is \<open>/a/b\<close>, \<open>(False, [])\<close> is \<open>.\<close>,
  \<open>(False, [''..'', ''a''])\<close> is \<open>../a\<close>. \<open>split_sep\<close> cuts a string at every
  separator; \<open>clean_elem\<close> is one turn of the loop of \<open>Clean\<close>: an empty element and
  \<open>.\<close> are dropped, \<open>..\<close> removes the last element when there is one to remove, is
  dropped at the root, and is kept in front of a relative path.
\<close>

type_synonym path = "bool \<times> string list"

fun split_sep :: "string \<Rightarrow> string list" where
  "split_sep [] = [[]]"
| "split_sep (c # cs) =
     (if c = CHR ''/'' then [] # split_sep cs
      else (case split_sep cs of [] \<Rightarrow> [[c]] | x # xs \<Rightarrow> (c # x) # xs))"

definition clean_elem :: "bool \<Rightarrow> string list \<Rightarrow> string \<Rightarrow> string list" where
  "clean_elem rooted out e =
     (if e = [] \<or> e = ''.'' then out
      else if e = ''..'' then
        (if out \<noteq> [] \<and> last out \<noteq> ''..'' then butlast out
         else if rooted then out
         else out @ [''..''])
      else out @ [e])"

definition Clean :: "string \<Rightarrow> path" where
  "Clean p =
     (case p of
        [] \<Rightarrow> (False, [])
      | c # _ \<Rightarrow> (c = CHR ''/'', foldl (clean_elem (c = CHR ''/'')) [] (split_sep p)))"

text \<open>
  \<open>Join\<close> ignores leading empty arguments and cleans the rest joined by separators.
  When every argument is empty Go returns the empty string, which is no cleaned path:
  that result is \<open>None\<close>.
\<close>

definition Join :: "string \<Rightarrow> string \<Rightarrow> path option" where
  "Join a b =
     (if a \<noteq> [] then Some (Clean (a @ ''/'' @ b))
      else if b \<noteq> [] then Some (Clean b)
      else None)"

text \<open>The path the operating system sees for a path string that was not built by \<open>Join\<close>.\<close>

definition os_path :: "string \<Rightarrow> path option" where
  "os_path s = (if s = [] then None else Some (Clean s))"

text \<open>\<open>under root p\<close>: the path \<open>p\<close> is the directory \<open>root\<close> or lies below it.\<close>

definition under :: "path \<Rightarrow> path \<Rightarrow> bool" where
  "under root p = (fst p = fst root \<and> take (length (snd root)) (snd p) = snd root)"

subsection \<open>The file system\<close>

text \<open>
  The world holds the file tree, the faults of the environment and the trace of what the
  program has done. The faults never change: \<open>deny p\<close> forbids creating or opening
  \<open>p\<close> for writing, \<open>unreadable p\<close> forbids reading it, \<open>quota p = Some k\<close> lets the file
  \<open>p\<close> grow to \<open>k\<close> bytes and no further.
\<close>

datatype node = Dir | File string

datatype event =
    EvStat "path option"
  | EvReadFile "path option"
  | EvWriteFile "path option" string
  | EvMkdirAll "path option"
  | EvCreate "path option"
  | EvCopy path string
  | EvOpenEmbedded string
  | EvLog string
  | EvSetStatus string

record world =
  files :: "path \<Rightarrow> node option"
  deny :: "path \<Rightarrow> bool"
  unreadable :: "path \<Rightarrow> bool"
  quota :: "path \<Rightarrow> nat option"
  trace :: "event list"

definition emit :: "event \<Rightarrow> world \<Rightarrow> world" where
  "emit e w = w\<lparr>trace := trace w @ [e]\<rparr>"

text \<open>The events a run has added to the trace of the world it started in.\<close>

definition new_events :: "world \<Rightarrow> world \<Rightarrow> event list" where
  "new_events w w' = drop (length (trace w)) (trace w')"

text \<open>An event that changes the file tree when it succeeds.\<close>

fun is_write :: "event \<Rightarrow> bool" where
  "is_write (EvWriteFile _ _) = True"
| "is_write (EvMkdirAll _) = True"
| "is_write (EvCreate _) = True"
| "is_write (EvCopy _ _) = True"
| "is_write _ = False"

text \<open>The root directory and the working directory always exist.\<close>

definition node_at :: "world \<Rightarrow> path \<Rightarrow> node option" where
  "node_at w p = (if snd p = [] then Some Dir else files w p)"

text \<open>
  Path resolution walks down from the root (or the working directory): \<open>pre\<close> is the part
  already walked, the last argument what is left. A missing element is \<open>ENOENT\<close>, a file
  where a directory is needed is \<open>ENOTDIR\<close>.
\<close>

fun stat_walk :: "world \<Rightarrow> bool \<Rightarrow> string list \<Rightarrow> string list \<Rightarrow> error + node" where
  "stat_walk w r pre [] =
     (case node_at w (r, pre) of None \<Rightarrow> Inl ENOENT | Some n \<Rightarrow> Inr n)"
| "stat_walk w r pre (c # cs) =
     (case node_at w (r, pre) of
        None \<Rightarrow> Inl ENOENT
      | Some (File _) \<Rightarrow> Inl ENOTDIR
      | Some Dir \<Rightarrow> stat_walk w r (pre @ [c]) cs)"

definition stat :: "world \<Rightarrow> path option \<Rightarrow> error + node" where
  "stat w p = (case p of None \<Rightarrow> Inl ENOENT | Some (r, cs) \<Rightarrow> stat_walk w r [] cs)"

definition os_Stat :: "path option \<Rightarrow> world \<Rightarrow> (error + node) \<times> world" where
  "os_Stat p w = (stat w p, emit (EvStat p) w)"

text \<open>
  \<open>filehelpers.FileExists\<close> of go-kit: false exactly when \<open>os.Stat\<close> reports that the
  file does not exist; any other outcome of \<open>os.Stat\<close> counts as existing.
\<close>

definition FileExists :: "path option \<Rightarrow> world \<Rightarrow> bool \<times> world" where
  "FileExists p w = (case os_Stat p w of (r, w') \<Rightarrow> (r \<noteq> Inl ENOENT, w'))"

definition os_ReadFile :: "path option \<Rightarrow> world \<Rightarrow> (error + string) \<times> world" where
  "os_ReadFile p w =
     ((case p of
         None \<Rightarrow> Inl ENOENT
       | Some q \<Rightarrow>
           (case stat w p of
              Inl e \<Rightarrow> Inl e
            | Inr Dir \<Rightarrow> Inl EISDIR
            | Inr (File d) \<Rightarrow> if unreadable w q then Inl EACCES else Inr d)),
      emit (EvReadFile p) w)"

text \<open>
  \<open>os.MkdirAll\<close> makes the directory and every missing ancestor, top down; it succeeds
  on a directory that exists and fails on a file in the way.
\<close>

fun mkdir_walk :: "bool \<Rightarrow> string list \<Rightarrow> string list \<Rightarrow> world \<Rightarrow> (error + unit) \<times> world" where
  "mkdir_walk r pre [] w =
     (case node_at w (r, pre) of
        Some (File _) \<Rightarrow> (Inl ENOTDIR, w)
      | Some Dir \<Rightarrow> (Inr (), w)
      | None \<Rightarrow>
          if deny w (r, pre) then (Inl EACCES, w)
          else (Inr (), w\<lparr>files := (files w)((r, pre) \<mapsto> Dir)\<rparr>))"
| "mkdir_walk r pre (c # cs) w =
     (case node_at w (r, pre) of
        Some (File _) \<Rightarrow> (Inl ENOTDIR, w)
      | Some Dir \<Rightarrow> mkdir_walk r (pre @ [c]) cs w
      | None \<Rightarrow>
          if deny w (r, pre) then (Inl EACCES, w)
          else mkdir_walk r (pre @ [c]) cs (w\<lparr>files := (files w)((r, pre) \<mapsto> Dir)\<rparr>))"

definition os_MkdirAll :: "path option \<Rightarrow> world \<Rightarrow> (error + unit) \<times> world" where
  "os_MkdirAll p w =
     (case p of
        None \<Rightarrow> (Inl ENOENT, emit (EvMkdirAll p) w)
      | Some (r, cs) \<Rightarrow> mkdir_walk r [] cs (emit (EvMkdirAll p) w))"

text \<open>
  Opening a file for writing with create and truncate, as \<open>os.Create\<close> and
  \<open>os.WriteFile\<close> do: the parent must be a directory, the name must not be one, and the
  file is left empty. The result is the open file, named by its path.
\<close>

definition open_trunc :: "path option \<Rightarrow> world \<Rightarrow> (error + path) \<times> world" where
  "open_trunc p w =
     (case p of
        None \<Rightarrow> (Inl ENOENT, w)
      | Some (r, cs) \<Rightarrow>
          if cs = [] then (Inl EISDIR, w)
          else (case stat w (Some (r, butlast cs)) of
                  Inl e \<Rightarrow> (Inl e, w)
                | Inr (File _) \<Rightarrow> (Inl ENOTDIR, w)
                | Inr Dir \<Rightarrow>
                    (case node_at w (r, cs) of
                       Some Dir \<Rightarrow> (Inl EISDIR, w)
                     | _ \<Rightarrow>
                         if deny w (r, cs) then (Inl EACCES, w)
                         else (Inr (r, cs), w\<lparr>files := (files w)((r, cs) \<mapsto> File [])\<rparr>))))"

definition os_Create :: "path option \<Rightarrow> world \<Rightarrow> (error + path) \<times> world" where
  "os_Create p w = open_trunc p (emit (EvCreate p) w)"

text \<open>
  Writing to an open file appends to it. With a quota the bytes that still fit are
  written and the write fails with \<open>ENOSPC\<close>.
\<close>

definition content :: "world \<Rightarrow> path \<Rightarrow> string" where
  "content w f = (case files w f of Some (File d) \<Rightarrow> d | _ \<Rightarrow> [])"

definition file_Write :: "path \<Rightarrow> string \<Rightarrow> world \<Rightarrow> (error + nat) \<times> world" where
  "file_Write f d w =
     (case quota w f of
        None \<Rightarrow> (Inr (length d), w\<lparr>files := (files w)(f \<mapsto> File (content w f @ d))\<rparr>)
      | Some k \<Rightarrow>
          if length (content w f) + length d \<le> k
          then (Inr (length d), w\<lparr>files := (files w)(f \<mapsto> File (content w f @ d))\<rparr>)
          else (Inl ENOSPC,
                w\<lparr>files := (files w)(f \<mapsto> File (content w f @ take (k - length (content w f)) d))\<rparr>))"

definition os_WriteFile :: "path option \<Rightarrow> string \<Rightarrow> world \<Rightarrow> (error + unit) \<times> world" where
  "os_WriteFile p d w =
     (case open_trunc p (emit (EvWriteFile p d) w) of
        (Inl e, w') \<Rightarrow> (Inl e, w')
      | (Inr f, w') \<Rightarrow>
          (case file_Write f d w' of
             (Inl e, w'') \<Rightarrow> (Inl e, w'')
           | (Inr _, w'') \<Rightarrow> (Inr (), w'')))"

subsection \<open>The archive as the tar reader delivers it\<close>

text \<open>
  The gzip and tar decoders are not part of the package. A compressed stream is
  described by what the decoders make of it: either \<open>gzip.NewReader\<close> rejects its header,
  or the tar reader delivers a finite sequence of results of \<open>Next\<close>, ended by \<open>io.EOF\<close>.
  An entry carries its header, the bytes of its payload that can be read, and the error
  that ends the payload early, if any.
\<close>

record header =
  Name :: string
  Typeflag :: char

definition TypeReg :: char where "TypeReg = CHR ''0''"
definition TypeDir :: char where "TypeDir = CHR ''5''"

datatype tar_next =
    Entry header string "error option"
  | NilHeader
  | NextError error

datatype stream = BadGzip error | TarGz "tar_next list"

definition gzip_NewReader :: "stream \<Rightarrow> error + tar_next list" where
  "gzip_NewReader s = (case s of BadGzip e \<Rightarrow> Inl e | TarGz xs \<Rightarrow> Inr xs)"

text \<open>
  \<open>io.Copy\<close> from the tar reader into the open file: the readable bytes are written; a
  failed write is returned, otherwise the error that ended the payload, if there is one.
\<close>

definition io_Copy :: "path \<Rightarrow> string \<Rightarrow> error option \<Rightarrow> world \<Rightarrow> (error + nat) \<times> world" where
  "io_Copy f d rerr w =
     (case file_Write f d (emit (EvCopy f d) w) of
        (Inl e, w') \<Rightarrow> (Inl e, w')
      | (Inr n, w') \<Rightarrow> (case rerr of Some e \<Rightarrow> (Inl e, w') | None \<Rightarrow> (Inr n, w')))"

text \<open>The verb \<open>%b\<close> of package fmt on a byte: its binary digits.\<close>

fun bin_digits :: "nat \<Rightarrow> nat \<Rightarrow> string" where
  "bin_digits 0 n = []"
| "bin_digits (Suc k) n =
     (if n < 2 then [if n = 0 then CHR ''0'' else CHR ''1'']
      else bin_digits k (n div 2) @ [if n mod 2 = 0 then CHR ''0'' else CHR ''1''])"

definition fmt_b :: "char \<Rightarrow> string" where
  "fmt_b c = bin_digits 8 (of_char c)"

subsection \<open>extractTarGz\<close>

text \<open>
  The loop of \<open>extractTarGz\<close> over the results of \<open>tarReader.Next()\<close>: the end of the
  sequence is \<open>io.EOF\<close> and ends the extraction without error, an error of \<open>Next\<close> is
  returned, a nil header is skipped. The status text ends in the three bytes of the
  ellipsis character.
\<close>

definition ellipsis :: string where
  "ellipsis = [CHR 0xE2, CHR 0x80, CHR 0xA6]"

fun extract_loop :: "tar_next list \<Rightarrow> string \<Rightarrow> world \<Rightarrow> (error + unit) \<times> world" where
  "extract_loop [] dest w = (Inr (), w)"
| "extract_loop (NextError e # rest) dest w = (Inl e, w)"
| "extract_loop (NilHeader # rest) dest w = extract_loop rest dest w"
| "extract_loop (Entry hdr d rerr # rest) dest w =
     (let target = Join dest (Name hdr) in
      if Typeflag hdr = TypeDir then
        (case os_MkdirAll target w of
           (Inl e, w') \<Rightarrow> (Inl e, w')
         | (Inr _, w') \<Rightarrow> extract_loop rest dest w')
      else if Typeflag hdr = TypeReg then
        (case os_Create target (emit (EvSetStatus (''Extracting '' @ Name hdr @ ellipsis)) w) of
           (Inl e, w') \<Rightarrow> (Inl e, w')
         | (Inr outFile, w') \<Rightarrow>
             (case io_Copy outFile d rerr w' of
                (Inl e, w'') \<Rightarrow> (Inl e, w'')
              | (Inr _, w'') \<Rightarrow> extract_loop rest dest w''))
      else
        (Inl (SperrNew (''ExtractTarGz: uknown type: '' @ fmt_b (Typeflag hdr)
                        @ '' in '' @ Name hdr)), w))"

text \<open>
  \<open>extractTarGz\<close> logs its start, opens the gzip reader, runs the loop, and logs its end
  (the deferred call) on every path. Closing the gzip reader right after opening it only
  reports its error state and does not stop later reads.
\<close>

definition extractTarGz :: "stream \<Rightarrow> string \<Rightarrow> world \<Rightarrow> (error + unit) \<times> world" where
  "extractTarGz gzipStream dest w =
     (let w0 = emit (EvLog ''dashboardassets.extractTarGz start'') w in
      case gzip_NewReader gzipStream of
        Inl err \<Rightarrow> (Inl err, emit (EvLog ''dashboardassets.extractTarGz end'') w0)
      | Inr tarReader \<Rightarrow>
          (case extract_loop tarReader dest w0 of
             (r, w') \<Rightarrow> (r, emit (EvLog ''dashboardassets.extractTarGz end'') w')))"

subsection \<open>UTF-8\<close>

text \<open>
  \<open>rune_len s\<close> is the number of bytes of the UTF-8 encoding at the head of \<open>s\<close>, and
  \<open>0\<close> where \<open>utf8.DecodeRune\<close> reports \<open>RuneError\<close> of width one (a byte that starts no
  encoding, a truncated or overlong encoding, a surrogate, a value above \<open>U+10FFFF\<close>).
\<close>

definition byte_in :: "nat \<Rightarrow> nat \<Rightarrow> char \<Rightarrow> bool" where
  "byte_in lo hi c = (lo \<le> of_char c \<and> of_char c \<le> hi)"

fun rune_len :: "string \<Rightarrow> nat" where
  "rune_len [] = 0"
| "rune_len (b # bs) =
     (let x = (of_char b :: nat) in
      if x < 0x80 then 1
      else if 0xC2 \<le> x \<and> x \<le> 0xDF then
        (case bs of b1 # _ \<Rightarrow> if byte_in 0x80 0xBF b1 then 2 else 0 | _ \<Rightarrow> 0)
      else if 0xE0 \<le> x \<and> x \<le> 0xEF then
        (case bs of
           b1 # b2 # _ \<Rightarrow>
             if byte_in (if x = 0xE0 then 0xA0 else 0x80) (if x = 0xED then 0x9F else 0xBF) b1
                \<and> byte_in 0x80 0xBF b2 then 3 else 0
         | _ \<Rightarrow> 0)
      else if 0xF0 \<le> x \<and> x \<le> 0xF4 then
        (case bs of
           b1 # b2 # b3 # _ \<Rightarrow>
             if byte_in (if x = 0xF0 then 0x90 else 0x80) (if x = 0xF4 then 0x8F else 0xBF) b1
                \<and> byte_in 0x80 0xBF b2 \<and> byte_in 0x80 0xBF b3 then 4 else 0
         | _ \<Rightarrow> 0)
      else 0)"

text \<open>\<open>utf8.EncodeRune\<close> on a code point that is neither a surrogate nor out of range.\<close>

definition encode_rune :: "nat \<Rightarrow> string" where
  "encode_rune r =
     (if r < 0x80 then [char_of r]
      else if r < 0x800 then [char_of (0xC0 + r div 64), char_of (0x80 + r mod 64)]
      else if r < 0x10000 then
        [char_of (0xE0 + r div 4096), char_of (0x80 + (r div 64) mod 64), char_of (0x80 + r mod 64)]
      else
        [char_of (0xF0 + r div 262144), char_of (0x80 + (r div 4096) mod 64),
         char_of (0x80 + (r div 64) mod 64), char_of (0x80 + r mod 64)])"

definition replacement_char :: string where
  "replacement_char = [CHR 0xEF, CHR 0xBF, CHR 0xBD]"

subsection \<open>\<open>json.Marshal\<close> of the version file\<close>

record ReportAssetsVersionFile =
  Version :: string

definition hex_digit :: "nat \<Rightarrow> char" where
  "hex_digit n = ''0123456789abcdef'' ! (n mod 16)"

text \<open>
  One ASCII byte inside a JSON string, as \<open>json.Marshal\<close> writes it (HTML escaping on):
  the quote and the backslash get a backslash, five control characters their short
  escapes, the other control characters and \<open><\<close>, \<open>>\<close>, \<open>&\<close> the form \<open>\u00XX\<close>.
\<close>

definition escape_ascii :: "char \<Rightarrow> string" where
  "escape_ascii b =
     (if b = CHR 0x5C \<or> b = CHR 0x22 then [CHR 0x5C, b]
      else if b = CHR 0x08 then [CHR 0x5C, CHR ''b'']
      else if b = CHR 0x0C then [CHR 0x5C, CHR ''f'']
      else if b = CHR 0x0A then [CHR 0x5C, CHR ''n'']
      else if b = CHR 0x0D then [CHR 0x5C, CHR ''r'']
      else if b = CHR 0x09 then [CHR 0x5C, CHR ''t'']
      else if of_char b < (0x20 :: nat) \<or> b = CHR ''<'' \<or> b = CHR ''>'' \<or> b = CHR ''&'' then
        [CHR 0x5C, CHR ''u'', CHR ''0'', CHR ''0'',
         hex_digit (of_char b div 16), hex_digit (of_char b mod 16)]
      else [b])"

text \<open>
  The body of the string: ASCII bytes are escaped one by one; an invalid byte becomes the
  escape of the replacement character; \<open>U+2028\<close> and \<open>U+2029\<close> are escaped; every other
  encoded character is copied.
\<close>

fun quote_body :: "string \<Rightarrow> string" where
  "quote_body [] = []"
| "quote_body (b # bs) =
     (if of_char b < (0x80 :: nat) then escape_ascii b @ quote_body bs
      else if rune_len (b # bs) = 0 then [CHR 0x5C] @ ''ufffd'' @ quote_body bs
      else if take 3 (b # bs) = [CHR 0xE2, CHR 0x80, CHR 0xA8] then
        [CHR 0x5C] @ ''u2028'' @ quote_body (drop 2 bs)
      else if take 3 (b # bs) = [CHR 0xE2, CHR 0x80, CHR 0xA9] then
        [CHR 0x5C] @ ''u2029'' @ quote_body (drop 2 bs)
      else take (rune_len (b # bs)) (b # bs) @ quote_body (drop (rune_len (b # bs) - 1) bs))"

definition json_Marshal :: "ReportAssetsVersionFile \<Rightarrow> error + string" where
  "json_Marshal vf =
     Inr ([CHR ''{'', CHR 0x22] @ ''version'' @ [CHR 0x22, CHR '':'', CHR 0x22]
          @ quote_body (Version vf) @ [CHR 0x22, CHR ''}''])"

subsection \<open>\<open>json.Unmarshal\<close> into the version file\<close>

text \<open>
  The input is cut into tokens, the tokens are read as one JSON value, and the value is
  stored into the struct. A string token carries the unquoted string.
\<close>

datatype token =
    TLBrace | TRBrace | TLBracket | TRBracket | TColon | TComma
  | TString string | TNumber | TTrue | TFalse | TNull

definition hex_val :: "char \<Rightarrow> nat option" where
  "hex_val c =
     (if byte_in 0x30 0x39 c then Some (of_char c - 0x30)
      else if byte_in 0x61 0x66 c then Some (of_char c - 0x61 + 10)
      else if byte_in 0x41 0x46 c then Some (of_char c - 0x41 + 10)
      else None)"

text \<open>\<open>getu4\<close>: the value of \<open>\uXXXX\<close> at the head of the input.\<close>

definition getu4 :: "string \<Rightarrow> nat option" where
  "getu4 s =
     (case s of
        bs # u # a # b # c # d # _ \<Rightarrow>
          if bs = CHR 0x5C \<and> u = CHR ''u'' then
            (case (hex_val a, hex_val b, hex_val c, hex_val d) of
               (Some x3, Some x2, Some x1, Some x0) \<Rightarrow> Some (x3 * 4096 + x2 * 256 + x1 * 16 + x0)
             | _ \<Rightarrow> None)
          else None
      | _ \<Rightarrow> None)"

definition simple_escape :: "char \<Rightarrow> char option" where
  "simple_escape e =
     (if e = CHR 0x22 \<or> e = CHR 0x5C \<or> e = CHR ''/'' then Some e
      else if e = CHR ''b'' then Some (CHR 0x08)
      else if e = CHR ''f'' then Some (CHR 0x0C)
      else if e = CHR ''n'' then Some (CHR 0x0A)
      else if e = CHR ''r'' then Some (CHR 0x0D)
      else if e = CHR ''t'' then Some (CHR 0x09)
      else None)"

text \<open>
  The escape \<open>\uXXXX\<close> at the head of the input: the bytes it stands for and the number
  of input bytes it takes. A high surrogate followed by the escape of a low surrogate is
  one character of twelve input bytes; any other surrogate is the replacement character.
\<close>

definition unicode_escape :: "string \<Rightarrow> (string \<times> nat) option" where
  "unicode_escape s =
     (case getu4 s of
        None \<Rightarrow> None
      | Some rr \<Rightarrow>
          if 0xD800 \<le> rr \<and> rr < 0xE000 then
            (case getu4 (drop 6 s) of
               Some rr1 \<Rightarrow>
                 if rr < 0xDC00 \<and> 0xDC00 \<le> rr1 \<and> rr1 < 0xE000
                 then Some (encode_rune ((rr - 0xD800) * 1024 + (rr1 - 0xDC00) + 0x10000), 12)
                 else Some (replacement_char, 6)
             | None \<Rightarrow> Some (replacement_char, 6))
          else Some (encode_rune rr, 6))"

text \<open>
  One character inside a string literal, not the closing quote: the bytes it stands for
  and the number of input bytes it takes, or \<open>None\<close> where the literal is not valid (a
  control character, a bad escape). An invalid byte stands for the replacement character.
\<close>

definition string_step :: "string \<Rightarrow> (string \<times> nat) option" where
  "string_step s =
     (case s of
        [] \<Rightarrow> None
      | c # cs \<Rightarrow>
          if c = CHR 0x5C then
            (case cs of
               [] \<Rightarrow> None
             | e # _ \<Rightarrow>
                 if e = CHR ''u'' then unicode_escape s
                 else (case simple_escape e of None \<Rightarrow> None | Some x \<Rightarrow> Some ([x], 2)))
          else if of_char c < (0x20 :: nat) then None
          else if of_char c < (0x80 :: nat) then Some ([c], 1)
          else if rune_len s = 0 then Some (replacement_char, 1)
          else Some (take (rune_len s) s, rune_len s))"

text \<open>
  The string literal whose opening quote has been read: the unquoted string and the
  number of input bytes up to and including the closing quote.
\<close>

fun string_lit :: "string \<Rightarrow> (string \<times> nat) option" where
  "string_lit [] = None"
| "string_lit (c # cs) =
     (if c = CHR 0x22 then Some ([], 1)
      else (case string_step (c # cs) of
              None \<Rightarrow> None
            | Some (bytes, n) \<Rightarrow>
                (case string_lit (drop (n - 1) cs) of
                   None \<Rightarrow> None
                 | Some (s, m) \<Rightarrow> Some (bytes @ s, n + m))))"

text \<open>The length of the number literal at the head of the input, \<open>None\<close> when there is none.\<close>

definition is_digit :: "char \<Rightarrow> bool" where
  "is_digit c = byte_in 0x30 0x39 c"

definition digits :: "string \<Rightarrow> nat" where
  "digits s = length (takeWhile is_digit s)"

definition exp_len :: "string \<Rightarrow> nat option" where
  "exp_len s =
     (case s of
        [] \<Rightarrow> Some 0
      | e # r \<Rightarrow>
          if e = CHR ''e'' \<or> e = CHR ''E'' then
            (let k = (case r of [] \<Rightarrow> 0 | sg # _ \<Rightarrow> if sg = CHR ''+'' \<or> sg = CHR ''-'' then 1 else 0);
                 d = digits (drop k r)
             in if d = 0 then None else Some (1 + k + d))
          else Some 0)"

definition frac_len :: "string \<Rightarrow> nat option" where
  "frac_len s =
     (case s of
        [] \<Rightarrow> Some 0
      | p # r \<Rightarrow>
          if p = CHR ''.'' then
            (let d = digits r
             in if d = 0 then None else map_option (\<lambda>n. 1 + d + n) (exp_len (drop d r)))
          else exp_len s)"

definition number_len :: "string \<Rightarrow> nat option" where
  "number_len s =
     (let k = (case s of [] \<Rightarrow> 0 | m # _ \<Rightarrow> if m = CHR ''-'' then 1 else (0 :: nat))
      in case drop k s of
           [] \<Rightarrow> None
         | d # r \<Rightarrow>
             if d = CHR ''0'' then map_option (\<lambda>n. k + 1 + n) (frac_len r)
             else if is_digit d then
               map_option (\<lambda>n. k + 1 + digits r + n) (frac_len (drop (digits r) r))
             else None)"

definition is_space :: "char \<Rightarrow> bool" where
  "is_space c = (c = CHR '' '' \<or> c = CHR 0x09 \<or> c = CHR 0x0D \<or> c = CHR 0x0A)"

definition tok :: "token \<Rightarrow> token list option \<Rightarrow> token list option" where
  "tok t r = map_option ((#) t) r"

text \<open>The tokens of the input, \<open>None\<close> where a byte starts no token.\<close>

fun lex :: "string \<Rightarrow> token list option" where
  "lex [] = Some []"
| "lex (c # cs) =
     (if is_space c then lex cs
      else if c = CHR ''{'' then tok TLBrace (lex cs)
      else if c = CHR ''}'' then tok TRBrace (lex cs)
      else if c = CHR ''['' then tok TLBracket (lex cs)
      else if c = CHR '']'' then tok TRBracket (lex cs)
      else if c = CHR '':'' then tok TColon (lex cs)
      else if c = CHR '','' then tok TComma (lex cs)
      else if c = CHR 0x22 then
        (case string_lit cs of
           None \<Rightarrow> None
         | Some (s, n) \<Rightarrow> tok (TString s) (lex (drop n cs)))
      else if c = CHR ''-'' \<or> is_digit c then
        (case number_len (c # cs) of
           None \<Rightarrow> None
         | Some n \<Rightarrow> tok TNumber (lex (drop (n - 1) cs)))
      else if take 3 cs = ''rue'' \<and> c = CHR ''t'' then tok TTrue (lex (drop 3 cs))
      else if take 4 cs = ''alse'' \<and> c = CHR ''f'' then tok TFalse (lex (drop 4 cs))
      else if take 3 cs = ''ull'' \<and> c = CHR ''n'' then tok TNull (lex (drop 3 cs))
      else None)"

text \<open>
  The value read so far. A frame is an enclosing array with the elements already read
  (last first), or an enclosing object with its members already read and the key whose
  value is being read. The states are those of the scanner of \<open>encoding/json\<close>: a value
  is expected; an array or an object was just opened; a key was read; a value inside an
  array or an object was read; the top-level value is complete.
\<close>

datatype json =
    JNull | JBool bool | JNumber | JString string
  | JArray "json list" | JObject "(string \<times> json) list"

datatype frame = InArray "json list" | InObject "(string \<times> json) list" string

datatype pstate =
    BeginValue "frame list"
  | BeginValueOrEmpty "frame list"
  | BeginStringOrEmpty "frame list"
  | BeginString "(string \<times> json) list" "frame list"
  | ObjectKey string "(string \<times> json) list" "frame list"
  | EndArrayValue "json list" "frame list"
  | EndObjectValue "(string \<times> json) list" "frame list"
  | EndTop json

definition maxNestingDepth :: nat where
  "maxNestingDepth = 10000"

fun deliver :: "json \<Rightarrow> frame list \<Rightarrow> pstate" where
  "deliver v [] = EndTop v"
| "deliver v (InArray es # st) = EndArrayValue (v # es) st"
| "deliver v (InObject ms k # st) = EndObjectValue ((k, v) # ms) st"

fun begin_value :: "frame list \<Rightarrow> token \<Rightarrow> pstate option" where
  "begin_value st (TString s) = Some (deliver (JString s) st)"
| "begin_value st TNumber = Some (deliver JNumber st)"
| "begin_value st TTrue = Some (deliver (JBool True) st)"
| "begin_value st TFalse = Some (deliver (JBool False) st)"
| "begin_value st TNull = Some (deliver JNull st)"
| "begin_value st TLBracket =
     (if length st < maxNestingDepth then Some (BeginValueOrEmpty st) else None)"
| "begin_value st TLBrace =
     (if length st < maxNestingDepth then Some (BeginStringOrEmpty st) else None)"
| "begin_value st _ = None"

fun pstep :: "pstate \<Rightarrow> token \<Rightarrow> pstate option" where
  "pstep (BeginValue st) t = begin_value st t"
| "pstep (BeginValueOrEmpty st) t =
     (if t = TRBracket then Some (deliver (JArray []) st) else begin_value (InArray [] # st) t)"
| "pstep (BeginStringOrEmpty st) t =
     (case t of
        TRBrace \<Rightarrow> Some (deliver (JObject []) st)
      | TString k \<Rightarrow> Some (ObjectKey k [] st)
      | _ \<Rightarrow> None)"
| "pstep (BeginString ms st) t =
     (case t of TString k \<Rightarrow> Some (ObjectKey k ms st) | _ \<Rightarrow> None)"
| "pstep (ObjectKey k ms st) t =
     (if t = TColon then Some (BeginValue (InObject ms k # st)) else None)"
| "pstep (EndArrayValue es st) t =
     (if t = TComma then Some (BeginValue (InArray es # st))
      else if t = TRBracket then Some (deliver (JArray (rev es)) st)
      else None)"
| "pstep (EndObjectValue ms st) t =
     (if t = TComma then Some (BeginString ms st)
      else if t = TRBrace then Some (deliver (JObject (rev ms)) st)
      else None)"
| "pstep (EndTop v) t = None"

fun prun :: "pstate \<Rightarrow> token list \<Rightarrow> pstate option" where
  "prun q [] = Some q"
| "prun q (t # ts) = (case pstep q t of None \<Rightarrow> None | Some q' \<Rightarrow> prun q' ts)"

definition parse_json :: "string \<Rightarrow> json option" where
  "parse_json data =
     (case lex data of
        None \<Rightarrow> None
      | Some ts \<Rightarrow> (case prun (BeginValue []) ts of Some (EndTop v) \<Rightarrow> Some v | _ \<Rightarrow> None))"

text \<open>
  The name of a key, folded as \<open>encoding/json\<close> folds it to find the field: ASCII letters
  in upper case; the long s (\<open>U+017F\<close>) is \<open>S\<close> and the Kelvin sign (\<open>U+212A\<close>) is \<open>K\<close>.
\<close>

fun foldName :: "string \<Rightarrow> string" where
  "foldName [] = []"
| "foldName (c # cs) =
     (if byte_in 0x61 0x7A c then char_of (of_char c - (0x20 :: nat)) # foldName cs
      else if take 2 (c # cs) = [CHR 0xC5, CHR 0xBF] then CHR ''S'' # foldName (drop 1 cs)
      else if take 3 (c # cs) = [CHR 0xE2, CHR 0x84, CHR 0xAA] then CHR ''K'' # foldName (drop 2 cs)
      else c # foldName cs)"

text \<open>
  Storing the members of an object into the struct, in their order: a member whose key
  folds to the name of the field sets \<open>Version\<close> when its value is a string, is ignored
  when it is \<open>null\<close>, and is a type error otherwise; the first type error is kept and
  the decoding goes on. Other members are skipped.
\<close>

fun store_members ::
  "(string \<times> json) list \<Rightarrow> ReportAssetsVersionFile \<Rightarrow> error option
     \<Rightarrow> ReportAssetsVersionFile \<times> error option" where
  "store_members [] vf err = (vf, err)"
| "store_members ((k, v) # ms) vf err =
     (if foldName k = foldName ''version'' then
        (case v of
           JString s \<Rightarrow> store_members ms (vf\<lparr>Version := s\<rparr>) err
         | JNull \<Rightarrow> store_members ms vf err
         | _ \<Rightarrow> store_members ms vf (case err of None \<Rightarrow> Some UnmarshalTypeError | Some e \<Rightarrow> Some e))
      else store_members ms vf err)"

definition json_Unmarshal :: "string \<Rightarrow> error + ReportAssetsVersionFile" where
  "json_Unmarshal data =
     (case parse_json data of
        None \<Rightarrow> Inl SyntaxError
      | Some JNull \<Rightarrow> Inr \<lparr>Version = []\<rparr>
      | Some (JObject ms) \<Rightarrow>
          (case store_members ms \<lparr>Version = []\<rparr> None of
             (vf, None) \<Rightarrow> Inr vf
           | (vf, Some e) \<Rightarrow> Inl e)
      | Some _ \<Rightarrow> Inl UnmarshalTypeError)"

subsection \<open>The environment of the package\<close>

text \<open>
  What the package takes from outside: the string of the running version
  (\<open>app_specific.AppVersion.String()\<close>), the two paths computed by package filepaths,
  and the files embedded in the binary.
\<close>

record env =
  AppVersion :: string
  ReportAssetsVersionFilePath :: string
  DashboardAssetsDir :: string
  staticFS :: "string \<Rightarrow> stream option"

definition embeddedAssetArchiveName :: string where
  "embeddedAssetArchiveName = ''assets.tar.gz''"

definition staticFS_Open :: "env \<Rightarrow> string \<Rightarrow> world \<Rightarrow> (error + stream) \<times> world" where
  "staticFS_Open E name w =
     ((case staticFS E name of None \<Rightarrow> Inl ErrNotExist | Some s \<Rightarrow> Inr s),
      emit (EvOpenEmbedded name) w)"

text \<open>
  Modelled from the spec: \<open>filepaths.EnsureDashboardAssetsDir\<close> is not among the sources.
  The destination root is "a single directory path, created if absent": the directory
  and its missing ancestors are made and the path is returned. The helper returns no
  error; a directory that cannot be made ends the program, which is the panic here.
\<close>

definition EnsureDashboardAssetsDir :: "env \<Rightarrow> world \<Rightarrow> (error + string) \<times> world" where
  "EnsureDashboardAssetsDir E w =
     (case os_MkdirAll (os_path (DashboardAssetsDir E)) w of
        (Inl e, w') \<Rightarrow> (Inl (Panic e), w')
      | (Inr _, w') \<Rightarrow> (Inr (DashboardAssetsDir E), w'))"

subsection \<open>The functions of the package\<close>

definition updateAssetVersionFile :: "env \<Rightarrow> world \<Rightarrow> (error + unit) \<times> world" where
  "updateAssetVersionFile E w =
     (let versionFile = \<lparr>Version = AppVersion E\<rparr> in
      case json_Marshal versionFile of
        Inl err \<Rightarrow>
          (Inl (WrapWithMessage err ''could not marshal dashboard assets version file''), w)
      | Inr versionFileJSON \<Rightarrow>
          (case os_WriteFile (os_path (ReportAssetsVersionFilePath E)) versionFileJSON w of
             (Inl err, w') \<Rightarrow>
               (Inl (WrapWithMessage err ''could not write dashboard assets version file''), w')
           | (Inr _, w') \<Rightarrow> (Inr (), w')))"

text \<open>
  The error of \<open>os.ReadFile\<close> is dropped: a failed read hands the empty content to
  \<open>json.Unmarshal\<close>.
\<close>

definition loadReportAssetVersionFile ::
  "env \<Rightarrow> world \<Rightarrow> (error + ReportAssetsVersionFile) \<times> world" where
  "loadReportAssetVersionFile E w =
     (let versionFilePath = os_path (ReportAssetsVersionFilePath E) in
      case FileExists versionFilePath w of
        (False, w1) \<Rightarrow> (Inr \<lparr>Version = []\<rparr>, w1)
      | (True, w1) \<Rightarrow>
          (case os_ReadFile versionFilePath w1 of
             (r, w2) \<Rightarrow>
               (let file = (case r of Inl _ \<Rightarrow> [] | Inr d \<Rightarrow> d) in
                case json_Unmarshal file of
                  Inl err \<Rightarrow>
                    (Inl err, emit (EvLog ''Error while reading dashboard assets version file'') w2)
                | Inr versionFile \<Rightarrow> (Inr versionFile, w2))))"

definition installedAsstesMatchAppVersion :: "env \<Rightarrow> world \<Rightarrow> bool \<times> world" where
  "installedAsstesMatchAppVersion E w =
     (case loadReportAssetVersionFile E w of
        (Inl err, w') \<Rightarrow> (False, w')
      | (Inr versionFile, w') \<Rightarrow> (Version versionFile = AppVersion E, w'))"

text \<open>
  \<open>Ensure\<close>. The two calls of \<open>logging.LogTime\<close> record times in memory and are left out;
  closing the embedded file has no effect.
\<close>

definition Ensure :: "env \<Rightarrow> world \<Rightarrow> (error + unit) \<times> world" where
  "Ensure E w =
     (case installedAsstesMatchAppVersion E w of
        (True, w1) \<Rightarrow> (Inr (), w1)
      | (False, w1) \<Rightarrow>
          (case EnsureDashboardAssetsDir E w1 of
             (Inl p, w2) \<Rightarrow> (Inl p, w2)
           | (Inr reportAssetsPath, w2) \<Rightarrow>
               (case staticFS_Open E embeddedAssetArchiveName w2 of
                  (Inl err, w3) \<Rightarrow>
                    (Inl (WrapWithMessage err
                            ''could not open embedded dashboard assets archive''), w3)
                | (Inr tarGz, w3) \<Rightarrow>
                    (case extractTarGz tarGz reportAssetsPath w3 of
                       (Inl err, w4) \<Rightarrow>
                         (Inl (WrapWithMessage err
                                 ''could not extract embedded dashboard assets archive''), w4)
                     | (Inr _, w4) \<Rightarrow>
                         (case updateAssetVersionFile E w4 of
                            (Inl err, w5) \<Rightarrow>
                              (Inl (WrapWithMessage err
                                      ''could not update dashboard assets version file''), w5)
                          | (Inr _, w5) \<Rightarrow> (Inr (), w5))))))"

subsection \<open>Observations used by the properties\<close>

text \<open>
  The path an event of the extraction creates or writes: the argument of \<open>os.MkdirAll\<close>
  and of \<open>os.Create\<close>, and the file \<open>io.Copy\<close> writes to. \<open>contained dest ev\<close> says
  that this path, when the event has one, lies under the cleaned destination root.
\<close>

fun entry_target :: "event \<Rightarrow> path option option" where
  "entry_target (EvMkdirAll p) = Some p"
| "entry_target (EvCreate p) = Some p"
| "entry_target (EvCopy f d) = Some (Some f)"
| "entry_target _ = None"

definition contained :: "string \<Rightarrow> event \<Rightarrow> bool" where
  "contained dest ev =
     (case entry_target ev of
        None \<Rightarrow> True
      | Some None \<Rightarrow> False
      | Some (Some p) \<Rightarrow> under (Clean dest) p)"

text \<open>
  A name is local when it never climbs above its own start: cleaned by itself as a
  relative path it has no element \<open>..\<close>. So \<open>a/../b\<close> and \<open>/a\<close> are local, \<open>../a\<close>,
  \<open>a/../../b\<close> and \<open>/../a\<close> are not. \<open>escape_targets dest xs\<close> lists the joined paths
  of the entries of \<open>xs\<close> whose names are not local.
\<close>

definition local_name :: "string \<Rightarrow> bool" where
  "local_name name = (''..'' \<notin> set (foldl (clean_elem False) [] (split_sep name)))"

fun escape_targets :: "string \<Rightarrow> tar_next list \<Rightarrow> path option list" where
  "escape_targets dest [] = []"
| "escape_targets dest (Entry hdr d rerr # xs) =
     (if local_name (Name hdr) then escape_targets dest xs
      else Join dest (Name hdr) # escape_targets dest xs)"
| "escape_targets dest (NilHeader # xs) = escape_targets dest xs"
| "escape_targets dest (NextError e # xs) = escape_targets dest xs"

text \<open>A world with an empty file tree, no faults and an empty trace.\<close>

definition world0 :: world where
  "world0 = \<lparr>files = Map.empty, deny = (\<lambda>_. False), unreadable = (\<lambda>_. False),
             quota = (\<lambda>_. None), trace = []\<rparr>"

text \<open>
  The marker as it is persisted, read off the file tree: absent when the path does not
  exist; corrupt when something is there that cannot be read as a version file (a
  directory, a path through a file, an unreadable file, content that \<open>json.Unmarshal\<close>
  rejects); otherwise the version file that the content holds.
\<close>

datatype marker = Absent | Corrupt | Marker ReportAssetsVersionFile

definition persisted_marker :: "env \<Rightarrow> world \<Rightarrow> marker" where
  "persisted_marker E w =
     (case os_path (ReportAssetsVersionFilePath E) of
        None \<Rightarrow> Absent
      | Some q \<Rightarrow>
          (case stat w (Some q) of
             Inl e \<Rightarrow> if e = ENOENT then Absent else Corrupt
           | Inr Dir \<Rightarrow> Corrupt
           | Inr (File d) \<Rightarrow>
               if unreadable w q then Corrupt
               else (case json_Unmarshal d of Inl _ \<Rightarrow> Corrupt | Inr m \<Rightarrow> Marker m)))"

text \<open>The installed assets are stale: no marker, a corrupt one, or another version.\<close>

definition stale :: "env \<Rightarrow> world \<Rightarrow> bool" where
  "stale E w =
     (case persisted_marker E w of
        Absent \<Rightarrow> True
      | Corrupt \<Rightarrow> True
      | Marker m \<Rightarrow> Version m \<noteq> AppVersion E)"

text \<open>A run has entered \<open>extractTarGz\<close>: its first log line is among the new events.\<close>

definition extraction_started :: "world \<Rightarrow> world \<Rightarrow> bool" where
  "extraction_started w w' = (EvLog ''dashboardassets.extractTarGz start'' \<in> set (new_events w w'))"

text \<open>The two reads of the version gate on a marker that parses.\<close>

definition gate_events :: "env \<Rightarrow> event list" where
  "gate_events E = [EvStat (os_path (ReportAssetsVersionFilePath E)),
                    EvReadFile (os_path (ReportAssetsVersionFilePath E))]"

text \<open>
  A concrete installation: version \<open>1.2.3\<close>, the assets below \<open>/pp/assets\<close>, the marker
  in \<open>/pp/assets/versions.json\<close>, and an embedded archive with the directory \<open>a/\<close> and the
  file \<open>a/b.txt\<close> holding \<open>hi\<close>. \<open>marker_world n\<close> has the two directories and the
  node \<open>n\<close> at the path of the marker.
\<close>

definition archive0 :: "tar_next list" where
  "archive0 = [Entry \<lparr>Name = ''a/'', Typeflag = TypeDir\<rparr> [] None,
               Entry \<lparr>Name = ''a/b.txt'', Typeflag = TypeReg\<rparr> ''hi'' None]"

definition env0 :: env where
  "env0 = \<lparr>AppVersion = ''1.2.3'',
            ReportAssetsVersionFilePath = ''/pp/assets/versions.json'',
            DashboardAssetsDir = ''/pp/assets'',
            staticFS = (\<lambda>n. if n = ''assets.tar.gz'' then Some (TarGz archive0) else None)\<rparr>"

definition marker_world :: "node \<Rightarrow> world" where
  "marker_world n =
     world0\<lparr>files := [(True, [''pp'']) \<mapsto> Dir, (True, [''pp'', ''assets'']) \<mapsto> Dir,
                        (True, [''pp'', ''assets'', ''versions.json'']) \<mapsto> n]\<rparr>"

text \<open>The bytes of a marker file for version \<open>1.2.3\<close>.\<close>

definition marker123 :: string where
  "marker123 = ''{'' @ [CHR 0x22] @ ''version'' @ [CHR 0x22] @ '':'' @ [CHR 0x22]
               @ ''1.2.3'' @ [CHR 0x22] @ ''}''"

text \<open>The concrete installation with a symbolic link as the last entry of its archive.\<close>

definition symlink_header :: header where
  "symlink_header = \<lparr>Name = ''a/link'', Typeflag = CHR ''2''\<rparr>"

definition env_symlink :: env where
  "env_symlink =
     env0\<lparr>staticFS := (\<lambda>n. if n = ''assets.tar.gz''
                            then Some (TarGz (archive0 @ [Entry symlink_header [] None]))
                            else None)\<rparr>"

text \<open>
  The characters of a rendered semantic version: digits, letters, the dot, the hyphen
  and the plus sign. \<open>plain_char\<close> is the wider class of the printable ASCII characters
  that \<open>json.Marshal\<close> writes as they are.
\<close>

definition version_char :: "char \<Rightarrow> bool" where
  "version_char c =
     (byte_in 0x30 0x39 c \<or> byte_in 0x41 0x5A c \<or> byte_in 0x61 0x7A c
      \<or> c = CHR ''.'' \<or> c = CHR ''-'' \<or> c = CHR ''+'')"

definition version_string :: "string \<Rightarrow> bool" where
  "version_string v = (v \<noteq> [] \<and> list_all version_char v)"

definition plain_char :: "char \<Rightarrow> bool" where
  "plain_char c =
     (byte_in 0x20 0x7F c \<and> c \<noteq> CHR 0x22 \<and> c \<noteq> CHR 0x5C
      \<and> c \<noteq> CHR ''<'' \<and> c \<noteq> CHR ''>'' \<and> c \<noteq> CHR ''&'')"

text \<open>
  \<open>file_targets dest xs\<close> lists the joined paths of the regular-file entries of \<open>xs\<close>:
  the paths the extraction creates and writes as files. \<open>loop_start E w\<close> is the world in
  which a run of \<open>Ensure\<close> from \<open>w\<close> that passes the gate starts the loop over the
  entries: after the gate, the making of the assets directory, the opening of the
  archive and the first log line. \<open>is_WriteFile\<close> marks the event of \<open>os.WriteFile\<close>,
  which only the marker update raises.
\<close>

fun file_targets :: "string \<Rightarrow> tar_next list \<Rightarrow> path option list" where
  "file_targets dest [] = []"
| "file_targets dest (Entry hdr d rerr # xs) =
     (if Typeflag hdr = TypeReg
      then Join dest (Name hdr) # file_targets dest xs
      else file_targets dest xs)"
| "file_targets dest (NilHeader # xs) = file_targets dest xs"
| "file_targets dest (NextError e # xs) = file_targets dest xs"

definition loop_start :: "env \<Rightarrow> world \<Rightarrow> world" where
  "loop_start E w =
     emit (EvLog ''dashboardassets.extractTarGz start'')
       (emit (EvOpenEmbedded embeddedAssetArchiveName)
          (snd (EnsureDashboardAssetsDir E (snd (installedAsstesMatchAppVersion E w)))))"

fun is_WriteFile :: "event \<Rightarrow> bool" where
  "is_WriteFile (EvWriteFile p d) = True"
| "is_WriteFile _ = False"


text \<open>
  The concrete installation with a third entry, the file \<open>a/c.txt\<close> of three bytes, in a
  world where that file may hold one byte only: writing it fails after \<open>a/b.txt\<close> has
  been written.
\<close>

definition c_entry :: tar_next where
  "c_entry = Entry \<lparr>Name = ''a/c.txt'', Typeflag = TypeReg\<rparr> ''xyz'' None"

definition env_full :: env where
  "env_full =
     env0\<lparr>staticFS := (\<lambda>n. if n = ''assets.tar.gz''
                            then Some (TarGz (archive0 @ [c_entry])) else None)\<rparr>"

definition world_full :: world where
  "world_full =
     world0\<lparr>quota := (\<lambda>p. if p = (True, [''pp'', ''assets'', ''a'', ''c.txt''])
                          then Some 1 else None)\<rparr>"

section \<open>Properties\<close>

subsection \<open>Paths\<close>

lemma split_sep_ne: "split_sep s \<noteq> []"
  by (induction s) (auto split: list.splits)

lemma split_sep_append: "split_sep (a @ CHR ''/'' # b) = split_sep a @ split_sep b"
  by (induction a) (auto split: list.splits simp: split_sep_ne)

lemma dotdot_stays:
  "''..'' \<in> set out \<Longrightarrow> ''..'' \<in> set (foldl (clean_elem r) out es)"
proof (induction es arbitrary: out)
  case Nil
  then show ?case by simp
next
  case (Cons e es)
  have "''..'' \<in> set (clean_elem r out e)"
  proof (cases "e = ''..'' \<and> out \<noteq> [] \<and> last out \<noteq> ''..''")
    case True
    then have "out = butlast out @ [last out]" by simp
    then have "set out = set (butlast out) \<union> {last out}"
      by (metis Un_insert_right list.simps(15) set_append sup_bot.right_neutral list.set(1))
    then have "''..'' \<in> set (butlast out)" using Cons.prems True by auto
    then show ?thesis using True by (simp add: clean_elem_def)
  next
    case False
    then show ?thesis using Cons.prems by (auto simp: clean_elem_def)
  qed
  then show ?case using Cons.IH by simp
qed

text \<open>
  Cleaning the elements of a local name on top of a directory \<open>D\<close> never removes an
  element of \<open>D\<close>: the result is \<open>D\<close> followed by the name cleaned by itself.
\<close>

lemma foldl_clean_local:
  assumes "''..'' \<notin> set (foldl (clean_elem False) S es)"
  shows "foldl (clean_elem r) (D @ S) es = D @ foldl (clean_elem False) S es"
  using assms
proof (induction es arbitrary: S)
  case Nil
  then show ?case by simp
next
  case (Cons e es)
  have S: "''..'' \<notin> set (clean_elem False S e)"
    using Cons.prems dotdot_stays[of "clean_elem False S e" False es] by auto
  have step: "clean_elem r (D @ S) e = D @ clean_elem False S e"
  proof (cases "e = ''..''")
    case True
    show ?thesis
    proof (cases "S = []")
      case True
      then have "clean_elem False S e = [''..'']" using \<open>e = ''..''\<close> by (simp add: clean_elem_def)
      then show ?thesis using S by simp
    next
      case False
      then have "last S \<noteq> ''..''" using S True by (auto simp: clean_elem_def split: if_splits)
      then show ?thesis using False True by (simp add: clean_elem_def butlast_append)
    qed
  next
    case False
    then show ?thesis by (simp add: clean_elem_def)
  qed
  show ?case using Cons.IH[OF _] Cons.prems step by simp
qed

lemma Clean_Join_append:
  assumes "dest \<noteq> []"
  shows "Clean (dest @ CHR ''/'' # name) =
           (fst (Clean dest), foldl (clean_elem (fst (Clean dest))) (snd (Clean dest)) (split_sep name))"
proof -
  obtain c cs where d: "dest = c # cs" using assms by (cases dest) auto
  have "split_sep (dest @ CHR ''/'' # name) = split_sep dest @ split_sep name"
    by (rule split_sep_append)
  then show ?thesis
    by (simp add: Clean_def d del: split_sep.simps)
qed

text \<open>A local name is resolved below the destination.\<close>

lemma Join_local:
  assumes "dest \<noteq> []" and "local_name name"
  shows "Join dest name =
           Some (fst (Clean dest),
                 snd (Clean dest) @ foldl (clean_elem False) [] (split_sep name))"
  using assms foldl_clean_local[of "[]" "split_sep name" "fst (Clean dest)" "snd (Clean dest)"]
  by (simp add: Join_def Clean_Join_append local_name_def)

lemma Join_local_under:
  assumes "dest \<noteq> []" and "local_name name"
  shows "\<exists>q. Join dest name = Some q \<and> under (Clean dest) q"
  using Join_local[OF assms] by (simp add: under_def)

subsection \<open>What each operation adds to the trace\<close>

lemma emit_simps [simp]:
  "trace (emit e w) = trace w @ [e]"
  "files (emit e w) = files w"
  "deny (emit e w) = deny w"
  "unreadable (emit e w) = unreadable w"
  "quota (emit e w) = quota w"
  by (simp_all add: emit_def)

lemma node_at_emit [simp]: "node_at (emit e w) p = node_at w p"
  by (simp add: node_at_def)

lemma trace_mkdir_walk: "mkdir_walk r pre cs w = (res, w') \<Longrightarrow> trace w' = trace w"
  by (induction cs arbitrary: pre w) (auto split: option.splits node.splits if_splits)

lemma trace_os_MkdirAll: "os_MkdirAll p w = (res, w') \<Longrightarrow> trace w' = trace w @ [EvMkdirAll p]"
  by (auto simp: os_MkdirAll_def split: option.splits dest: trace_mkdir_walk)

lemma trace_open_trunc: "open_trunc p w = (res, w') \<Longrightarrow> trace w' = trace w"
  by (auto simp: open_trunc_def split: option.splits sum.splits node.splits if_splits)

lemma trace_os_Create: "os_Create p w = (res, w') \<Longrightarrow> trace w' = trace w @ [EvCreate p]"
  by (auto simp: os_Create_def dest: trace_open_trunc)

lemma trace_file_Write: "file_Write f d w = (res, w') \<Longrightarrow> trace w' = trace w"
  by (auto simp: file_Write_def split: option.splits if_splits)

lemma trace_io_Copy: "io_Copy f d rerr w = (res, w') \<Longrightarrow> trace w' = trace w @ [EvCopy f d]"
  by (auto simp: io_Copy_def split: prod.splits sum.splits option.splits dest: trace_file_Write)

lemma open_trunc_handle: "open_trunc p w = (Inr f, w') \<Longrightarrow> p = Some f"
  by (auto simp: open_trunc_def split: option.splits sum.splits node.splits if_splits)

lemma os_Create_handle: "os_Create p w = (Inr f, w') \<Longrightarrow> p = Some f"
  by (auto simp: os_Create_def dest: open_trunc_handle)

lemma contained_simps [simp]:
  "contained dest (EvMkdirAll (Some p)) = under (Clean dest) p"
  "contained dest (EvCreate (Some p)) = under (Clean dest) p"
  "contained dest (EvCopy p d) = under (Clean dest) p"
  "contained dest (EvSetStatus s) = True"
  by (simp_all add: contained_def)

subsection \<open>Where the extraction writes\<close>

lemma extract_loop_targets:
  assumes "\<And>hdr d rerr. Entry hdr d rerr \<in> set xs \<Longrightarrow> Q (Join dest (Name hdr))"
  shows "\<exists>evs. trace (snd (extract_loop xs dest w)) = trace w @ evs
           \<and> list_all (\<lambda>ev. case entry_target ev of None \<Rightarrow> True | Some p \<Rightarrow> Q p) evs"
  using assms
proof (induction xs arbitrary: w)
  case Nil
  then show ?case by simp
next
  case (Cons x xs)
  have IH: "\<exists>evs. trace (snd (extract_loop xs dest w')) = trace w' @ evs
           \<and> list_all (\<lambda>ev. case entry_target ev of None \<Rightarrow> True | Some p \<Rightarrow> Q p) evs" for w'
    by (rule Cons.IH) (use Cons.prems in auto)
  show ?case
  proof (cases x)
    case (Entry hdr d rerr)
    define target where "target = Join dest (Name hdr)"
    have q: "Q target" using Cons.prems[of hdr d rerr] Entry by (simp add: target_def)
    show ?thesis
    proof (cases "Typeflag hdr = TypeDir")
      case True
      obtain r w1 where m: "os_MkdirAll target w = (r, w1)" by (cases "os_MkdirAll target w")
      have t1: "trace w1 = trace w @ [EvMkdirAll target]"
        using trace_os_MkdirAll[OF m] .
      show ?thesis
      proof (cases r)
        case (Inl e)
        then show ?thesis using Entry True q m t1 by (simp add: target_def[symmetric])
      next
        case (Inr u)
        from IH[of w1] obtain evs where
          "trace (snd (extract_loop xs dest w1)) = trace w1 @ evs"
          "list_all (\<lambda>ev. case entry_target ev of None \<Rightarrow> True | Some p \<Rightarrow> Q p) evs" by blast
        then show ?thesis using Entry True q m t1 Inr by (simp add: target_def[symmetric])
      qed
    next
      case False
      show ?thesis
      proof (cases "Typeflag hdr = TypeReg")
        case nreg: False
        then show ?thesis using Entry False by simp
      next
        case True
        define w0 where "w0 = emit (EvSetStatus (''Extracting '' @ Name hdr @ ellipsis)) w"
        obtain r w1 where c: "os_Create target w0 = (r, w1)" by (cases "os_Create target w0")
        have t1: "trace w1 = trace w @ [EvSetStatus (''Extracting '' @ Name hdr @ ellipsis), EvCreate target]"
          using trace_os_Create[OF c] by (simp add: w0_def)
        show ?thesis
        proof (cases r)
          case (Inl e)
          then show ?thesis using Entry False True q c t1
            by (simp add: w0_def target_def[symmetric])
        next
          case (Inr f)
          with c have f: "target = Some f" using os_Create_handle by fastforce
          obtain r2 w2 where cp: "io_Copy f d rerr w1 = (r2, w2)" by (cases "io_Copy f d rerr w1")
          have t2: "trace w2 = trace w1 @ [EvCopy f d]"
            using trace_io_Copy[OF cp] .
          show ?thesis
          proof (cases r2)
            case (Inl e)
            then show ?thesis using Entry False True q c t1 Inr cp t2 f
              by (simp add: w0_def target_def[symmetric])
          next
            case (Inr n)
            from IH[of w2] obtain evs where
              "trace (snd (extract_loop xs dest w2)) = trace w2 @ evs"
              "list_all (\<lambda>ev. case entry_target ev of None \<Rightarrow> True | Some p \<Rightarrow> Q p) evs" by blast
            then show ?thesis using Entry False True q c t1 \<open>r = Inr f\<close> cp t2 f Inr
              by (simp add: w0_def target_def[symmetric])
          qed
        qed
      qed
    qed
  next
    case NilHeader
    then show ?thesis using IH by simp
  next
    case (NextError e)
    then show ?thesis by simp
  qed
qed

lemma escape_targets_mem:
  "Entry hdr d rerr \<in> set xs \<Longrightarrow> \<not> local_name (Name hdr) \<Longrightarrow>
   Join dest (Name hdr) \<in> set (escape_targets dest xs)"
proof (induction xs)
  case Nil
  then show ?case by simp
next
  case (Cons x xs)
  then show ?case by (cases x) auto
qed

text \<open>
  Claim C9, as the code has it. The claim says that every entry, also one whose name
  contains \<open>..\<close>, is created under the destination root. \<open>filepath.Join\<close> cleans the
  joined path, so a name that climbs above its own start leaves the destination (the
  source marks the two places "known archive"). What holds, entry by entry: for a
  non-empty destination root, a local name, with or without \<open>..\<close> in it, is resolved
  under the destination root; and every directory made, every file created and every
  file written by an extraction lies under the destination root unless it is the joined
  path of an entry whose name is not local.
\<close>

theorem local_entries_contained:
  assumes "dest \<noteq> []"
  shows "(local_name name \<longrightarrow> (\<exists>q. Join dest name = Some q \<and> under (Clean dest) q))
         \<and> list_all (\<lambda>ev. contained dest ev
                           \<or> entry_target ev \<in> Some ` set (escape_targets dest xs))
             (new_events w (snd (extract_loop xs dest w)))"
proof -
  define Q where "Q p = ((\<exists>q. p = Some q \<and> under (Clean dest) q)
                          \<or> p \<in> set (escape_targets dest xs))" for p
  have Qall: "Q (Join dest (Name hdr))" if "Entry hdr d rerr \<in> set xs" for hdr d rerr
  proof (cases "local_name (Name hdr)")
    case True
    then show ?thesis using Join_local_under[OF assms] by (auto simp: Q_def)
  next
    case False
    then show ?thesis using escape_targets_mem[OF that] by (simp add: Q_def)
  qed
  have "\<exists>evs. trace (snd (extract_loop xs dest w)) = trace w @ evs
           \<and> list_all (\<lambda>ev. case entry_target ev of None \<Rightarrow> True | Some p \<Rightarrow> Q p) evs"
    by (rule extract_loop_targets) (rule Qall)
  then obtain evs where
    t: "trace (snd (extract_loop xs dest w)) = trace w @ evs" and
    l: "list_all (\<lambda>ev. case entry_target ev of None \<Rightarrow> True | Some p \<Rightarrow> Q p) evs"
    by blast
  have "contained dest ev \<or> entry_target ev \<in> Some ` set (escape_targets dest xs)"
    if "case entry_target ev of None \<Rightarrow> True | Some p \<Rightarrow> Q p" for ev
    using that by (auto simp: contained_def Q_def split: option.splits)
  then have "list_all (\<lambda>ev. contained dest ev
                           \<or> entry_target ev \<in> Some ` set (escape_targets dest xs)) evs"
    using l by (simp add: list_all_iff)
  then show ?thesis using t Join_local_under[OF assms] by (simp add: new_events_def)
qed

theorem local_entries_contained_witness:
  "''/d'' \<noteq> [] \<and> local_name ''a/../b''
   \<and> (\<exists>q. Join ''/d'' ''a/../b'' = Some q \<and> under (Clean ''/d'') q)
   \<and> list_all (\<lambda>ev. contained ''/d'' ev
         \<or> entry_target ev \<in> Some ` set (escape_targets ''/d''
              [Entry \<lparr>Name = ''../evil'', Typeflag = TypeReg\<rparr> ''x'' None,
               Entry \<lparr>Name = ''a/'', Typeflag = TypeDir\<rparr> [] None]))
       (new_events world0
          (snd (extract_loop [Entry \<lparr>Name = ''../evil'', Typeflag = TypeReg\<rparr> ''x'' None,
                              Entry \<lparr>Name = ''a/'', Typeflag = TypeDir\<rparr> [] None]
                  ''/d'' world0)))"
proof -
  have h1: "''/d'' \<noteq> []" by simp
  have h2: "local_name ''a/../b''" by (simp add: local_name_def clean_elem_def)
  show ?thesis
    using local_entries_contained[OF h1, of "''a/../b''"
            "[Entry \<lparr>Name = ''../evil'', Typeflag = TypeReg\<rparr> ''x'' None,
              Entry \<lparr>Name = ''a/'', Typeflag = TypeDir\<rparr> [] None]" world0] h1 h2
    by blast
qed

text \<open>
  The counterexample to claim C9 as stated: with destination \<open>/d\<close>, the file entry
  \<open>../evil\<close> is created at \<open>/evil\<close>, which is not under \<open>/d\<close>.
\<close>

theorem extract_dotdot_escapes:
  "files (snd (extract_loop [Entry \<lparr>Name = ''../evil'', Typeflag = TypeReg\<rparr> ''x'' None]
                 ''/d'' world0)) (True, [''evil'']) = Some (File ''x'') \<and>
   \<not> under (Clean ''/d'') (True, [''evil'']) \<and>
   \<not> list_all (contained ''/d'')
       (new_events world0
          (snd (extract_loop [Entry \<lparr>Name = ''../evil'', Typeflag = TypeReg\<rparr> ''x'' None]
                  ''/d'' world0)))"
  by (simp add: world0_def Join_def Clean_def clean_elem_def TypeReg_def TypeDir_def
      os_Create_def open_trunc_def emit_def stat_def node_at_def io_Copy_def file_Write_def
      content_def new_events_def contained_def under_def)

subsection \<open>The version gate\<close>

lemma json_Unmarshal_Nil: "json_Unmarshal [] = Inl SyntaxError"
  by (simp add: json_Unmarshal_def parse_json_def)

lemma stat_None [simp]: "stat w None = Inl ENOENT"
  by (simp add: stat_def)

lemma stat_walk_files: "files w = files w' \<Longrightarrow> stat_walk w r pre cs = stat_walk w' r pre cs"
  by (induction cs arbitrary: pre) (auto simp: node_at_def split: option.splits node.splits)

lemma stat_files: "files w = files w' \<Longrightarrow> stat w p = stat w' p"
  by (auto simp: stat_def split: option.splits dest: stat_walk_files)

lemma stat_emit [simp]: "stat (emit e w) p = stat w p"
  by (rule stat_files) simp

lemma load_cases:
  "loadReportAssetVersionFile E w =
     (case persisted_marker E w of
        Absent \<Rightarrow> (Inr \<lparr>Version = []\<rparr>, emit (EvStat (os_path (ReportAssetsVersionFilePath E))) w)
      | Corrupt \<Rightarrow> (Inl (case json_Unmarshal (case fst (os_ReadFile (os_path (ReportAssetsVersionFilePath E)) w) of Inl _ \<Rightarrow> [] | Inr d \<Rightarrow> d) of Inl e \<Rightarrow> e | Inr _ \<Rightarrow> SyntaxError),
                    emit (EvLog ''Error while reading dashboard assets version file'')
                      (emit (EvReadFile (os_path (ReportAssetsVersionFilePath E)))
                         (emit (EvStat (os_path (ReportAssetsVersionFilePath E))) w)))
      | Marker m \<Rightarrow> (Inr m, emit (EvReadFile (os_path (ReportAssetsVersionFilePath E)))
                         (emit (EvStat (os_path (ReportAssetsVersionFilePath E))) w)))"
  by (auto simp: loadReportAssetVersionFile_def persisted_marker_def FileExists_def os_Stat_def
      os_ReadFile_def json_Unmarshal_Nil Let_def
      split: option.splits sum.splits node.splits prod.splits bool.splits)


lemma gate_cases:
  "installedAsstesMatchAppVersion E w =
     (case persisted_marker E w of
        Absent \<Rightarrow> (AppVersion E = [], emit (EvStat (os_path (ReportAssetsVersionFilePath E))) w)
      | Corrupt \<Rightarrow> (False,
            emit (EvLog ''Error while reading dashboard assets version file'')
              (emit (EvReadFile (os_path (ReportAssetsVersionFilePath E)))
                 (emit (EvStat (os_path (ReportAssetsVersionFilePath E))) w)))
      | Marker m \<Rightarrow> (Version m = AppVersion E,
            emit (EvReadFile (os_path (ReportAssetsVersionFilePath E)))
              (emit (EvStat (os_path (ReportAssetsVersionFilePath E))) w)))"
  by (auto simp: installedAsstesMatchAppVersion_def load_cases split: marker.splits)

lemma gate_stale:
  "AppVersion E \<noteq> [] \<Longrightarrow> fst (installedAsstesMatchAppVersion E w) = (\<not> stale E w)"
  by (auto simp: gate_cases stale_def split: marker.splits)

lemma gate_files [simp]: "files (snd (installedAsstesMatchAppVersion E w)) = files w"
  and gate_deny [simp]: "deny (snd (installedAsstesMatchAppVersion E w)) = deny w"
  and gate_unreadable [simp]: "unreadable (snd (installedAsstesMatchAppVersion E w)) = unreadable w"
  and gate_quota [simp]: "quota (snd (installedAsstesMatchAppVersion E w)) = quota w"
  by (auto simp: gate_cases split: marker.splits)

lemma gate_trace:
  "\<exists>evs. trace (snd (installedAsstesMatchAppVersion E w)) = trace w @ evs
         \<and> EvLog ''dashboardassets.extractTarGz start'' \<notin> set evs
         \<and> list_all (\<lambda>e. \<not> is_write e) evs"
  by (auto simp: gate_cases split: marker.splits)

lemma mkdir_walk_indep:
  "files w = files w' \<Longrightarrow> deny w = deny w' \<Longrightarrow>
   fst (mkdir_walk r pre cs w) = fst (mkdir_walk r pre cs w')
   \<and> files (snd (mkdir_walk r pre cs w)) = files (snd (mkdir_walk r pre cs w'))"
proof (induction cs arbitrary: pre w w')
  case Nil
  then show ?case by (auto simp: node_at_def split: option.splits node.splits)
next
  case (Cons c cs)
  have n: "node_at w (r, pre) = node_at w' (r, pre)" using Cons.prems by (simp add: node_at_def)
  show ?case
  proof (cases "node_at w (r, pre)")
    case None
    show ?thesis
    proof (cases "deny w (r, pre)")
      case True
      then show ?thesis using None n Cons.prems by simp
    next
      case False
      have "fst (mkdir_walk r (pre @ [c]) cs (w\<lparr>files := (files w)((r, pre) \<mapsto> Dir)\<rparr>)) =
            fst (mkdir_walk r (pre @ [c]) cs (w'\<lparr>files := (files w')((r, pre) \<mapsto> Dir)\<rparr>))
          \<and> files (snd (mkdir_walk r (pre @ [c]) cs (w\<lparr>files := (files w)((r, pre) \<mapsto> Dir)\<rparr>))) =
            files (snd (mkdir_walk r (pre @ [c]) cs (w'\<lparr>files := (files w')((r, pre) \<mapsto> Dir)\<rparr>)))"
        by (rule Cons.IH) (use Cons.prems in simp_all)
      then show ?thesis using None n False Cons.prems by simp
    qed
  next
    case (Some nd)
    then show ?thesis using n Cons.IH[OF Cons.prems] Cons.prems by (cases nd) auto
  qed
qed

lemma os_MkdirAll_indep:
  "files w = files w' \<Longrightarrow> deny w = deny w' \<Longrightarrow>
   fst (os_MkdirAll p w) = fst (os_MkdirAll p w')"
  using mkdir_walk_indep[of "emit (EvMkdirAll p) w" "emit (EvMkdirAll p) w'"]
  by (auto simp: os_MkdirAll_def split: option.splits)


lemma extract_loop_trace: "\<exists>evs. trace (snd (extract_loop xs dest w)) = trace w @ evs"
proof (induction xs arbitrary: w)
  case Nil
  then show ?case by simp
next
  case (Cons x xs)
  show ?case
  proof (cases x)
    case (Entry hdr d rerr)
    show ?thesis
    proof (cases "Typeflag hdr = TypeDir")
      case True
      obtain r w1 where m: "os_MkdirAll (Join dest (Name hdr)) w = (r, w1)"
        by (cases "os_MkdirAll (Join dest (Name hdr)) w")
      show ?thesis
      proof (cases r)
        case (Inl e)
        then show ?thesis using Entry True m trace_os_MkdirAll[OF m] by simp
      next
        case (Inr u)
        from Cons.IH[of w1] show ?thesis using Entry True m Inr trace_os_MkdirAll[OF m] by auto
      qed
    next
      case False
      show ?thesis
      proof (cases "Typeflag hdr = TypeReg")
        case nreg: False
        then show ?thesis using Entry False by simp
      next
        case True
        define w0 where "w0 = emit (EvSetStatus (''Extracting '' @ Name hdr @ ellipsis)) w"
        obtain r w1 where c: "os_Create (Join dest (Name hdr)) w0 = (r, w1)"
          by (cases "os_Create (Join dest (Name hdr)) w0")
        have t1: "\<exists>evs. trace w1 = trace w @ evs" using trace_os_Create[OF c] by (simp add: w0_def)
        show ?thesis
        proof (cases r)
          case (Inl e)
          then show ?thesis using Entry False True c t1 by (simp add: w0_def)
        next
          case (Inr f)
          obtain r2 w2 where cp: "io_Copy f d rerr w1 = (r2, w2)" by (cases "io_Copy f d rerr w1")
          have t2: "\<exists>evs. trace w2 = trace w @ evs" using trace_io_Copy[OF cp] t1 by auto
          show ?thesis
          proof (cases r2)
            case (Inl e)
            then show ?thesis using Entry False True c Inr cp t2 by (simp add: w0_def)
          next
            case r2: (Inr n)
            from Cons.IH[of w2] show ?thesis using Entry False True c Inr cp r2 t2 by (auto simp: w0_def)
          qed
        qed
      qed
    qed
  next
    case NilHeader
    then show ?thesis using Cons.IH by simp
  next
    case (NextError e)
    then show ?thesis by simp
  qed
qed

lemma extractTarGz_trace:
  "\<exists>evs. trace (snd (extractTarGz gz dest w)) =
          trace w @ EvLog ''dashboardassets.extractTarGz start'' # evs"
proof (cases "gzip_NewReader gz")
  case (Inl e)
  then show ?thesis by (simp add: extractTarGz_def)
next
  case (Inr xs)
  obtain evs where "trace (snd (extract_loop xs dest (emit (EvLog ''dashboardassets.extractTarGz start'') w)))
     = trace (emit (EvLog ''dashboardassets.extractTarGz start'') w) @ evs"
    using extract_loop_trace by blast
  then show ?thesis using Inr by (auto simp: extractTarGz_def split: prod.splits)
qed

subsection \<open>The run of Ensure\<close>

lemma trace_os_WriteFile:
  "os_WriteFile p d w = (res, w') \<Longrightarrow> trace w' = trace w @ [EvWriteFile p d]"
  by (auto simp: os_WriteFile_def split: prod.splits sum.splits
      dest!: trace_open_trunc trace_file_Write)

lemma trace_updateAssetVersionFile:
  "\<exists>evs. trace (snd (updateAssetVersionFile E w)) = trace w @ evs"
  by (auto simp: updateAssetVersionFile_def json_Marshal_def Let_def
      split: prod.splits sum.splits dest!: trace_os_WriteFile)

lemma Ensure_fresh:
  assumes "fst (installedAsstesMatchAppVersion E w)"
  shows "Ensure E w = (Inr (), snd (installedAsstesMatchAppVersion E w))"
  using assms by (cases "installedAsstesMatchAppVersion E w") (simp add: Ensure_def)

lemma Ensure_started:
  assumes g: "\<not> fst (installedAsstesMatchAppVersion E w)"
      and arch: "staticFS E embeddedAssetArchiveName = Some gz"
      and dir: "fst (os_MkdirAll (os_path (DashboardAssetsDir E)) w) = Inr ()"
  shows "extraction_started w (snd (Ensure E w))"
proof -
  obtain w1 where g1: "installedAsstesMatchAppVersion E w = (False, w1)"
    using g by (cases "installedAsstesMatchAppVersion E w") auto
  have w1: "files w1 = files w" "deny w1 = deny w"
    using gate_files[of E w] gate_deny[of E w] g1 by simp_all
  obtain e1 where t1: "trace w1 = trace w @ e1"
    using gate_trace[of E w] g1 by auto
  obtain r2 w2 where m: "os_MkdirAll (os_path (DashboardAssetsDir E)) w1 = (r2, w2)"
    by (cases "os_MkdirAll (os_path (DashboardAssetsDir E)) w1")
  have "fst (os_MkdirAll (os_path (DashboardAssetsDir E)) w1) = Inr ()"
    using os_MkdirAll_indep[OF w1, of "os_path (DashboardAssetsDir E)"] dir by simp
  then have r2: "r2 = Inr ()" using m by simp
  have t2: "trace w2 = trace w1 @ [EvMkdirAll (os_path (DashboardAssetsDir E))]"
    using trace_os_MkdirAll[OF m] .
  define w3 where "w3 = emit (EvOpenEmbedded embeddedAssetArchiveName) w2"
  obtain r4 w4 where x: "extractTarGz gz (DashboardAssetsDir E) w3 = (r4, w4)"
    by (cases "extractTarGz gz (DashboardAssetsDir E) w3")
  obtain e4 where t4: "trace w4 = trace w3 @ EvLog ''dashboardassets.extractTarGz start'' # e4"
    using extractTarGz_trace[of gz "DashboardAssetsDir E" w3] x by auto
  obtain e5 where t5: "trace (snd (updateAssetVersionFile E w4)) = trace w4 @ e5"
    using trace_updateAssetVersionFile by blast
  have "\<exists>evs. trace (snd (Ensure E w)) = trace w4 @ evs"
    using g1 m r2 x arch t5
    by (auto simp: Ensure_def EnsureDashboardAssetsDir_def staticFS_Open_def w3_def
        split: prod.splits sum.splits)
  then obtain e6 where "trace (snd (Ensure E w)) = trace w4 @ e6" by blast
  then show ?thesis
    by (simp add: extraction_started_def new_events_def t4 w3_def t2 t1)
qed

lemma Ensure_not_started:
  assumes "fst (installedAsstesMatchAppVersion E w)"
  shows "\<not> extraction_started w (snd (Ensure E w))"
  using gate_trace[of E w] by (auto simp: Ensure_fresh[OF assms] extraction_started_def new_events_def)


lemma Ensure_stale_result:
  assumes g: "\<not> fst (installedAsstesMatchAppVersion E w)"
      and arch: "staticFS E embeddedAssetArchiveName = Some gz"
      and dir: "fst (os_MkdirAll (os_path (DashboardAssetsDir E)) w) = Inr ()"
  shows "fst (Ensure E w) = Inr ()
         \<or> (\<exists>e'. fst (Ensure E w) =
                Inl (WrapWithMessage e' ''could not extract embedded dashboard assets archive''))
         \<or> (\<exists>e'. fst (Ensure E w) =
                Inl (WrapWithMessage e' ''could not update dashboard assets version file''))"
proof -
  obtain w1 where g1: "installedAsstesMatchAppVersion E w = (False, w1)"
    using g by (cases "installedAsstesMatchAppVersion E w") auto
  have w1: "files w1 = files w" "deny w1 = deny w"
    using gate_files[of E w] gate_deny[of E w] g1 by simp_all
  obtain r2 w2 where m: "os_MkdirAll (os_path (DashboardAssetsDir E)) w1 = (r2, w2)"
    by (cases "os_MkdirAll (os_path (DashboardAssetsDir E)) w1")
  have "fst (os_MkdirAll (os_path (DashboardAssetsDir E)) w1) = Inr ()"
    using os_MkdirAll_indep[OF w1, of "os_path (DashboardAssetsDir E)"] dir by simp
  then have r2: "r2 = Inr ()" using m by simp
  show ?thesis
    using g1 m r2 arch
    by (auto simp: Ensure_def EnsureDashboardAssetsDir_def staticFS_Open_def
        split: prod.splits sum.splits)
qed

subsection \<open>The concrete installation\<close>

lemma os_path_marker0:
  "os_path (ReportAssetsVersionFilePath env0) = Some (True, [''pp'', ''assets'', ''versions.json''])"
  by (simp add: env0_def os_path_def Clean_def clean_elem_def)

lemma os_path_assets0:
  "os_path (DashboardAssetsDir env0) = Some (True, [''pp'', ''assets''])"
  by (simp add: env0_def os_path_def Clean_def clean_elem_def)

lemma stat_marker_world:
  "stat (marker_world n) (Some (True, [''pp'', ''assets'', ''versions.json''])) = Inr n"
  by (simp add: marker_world_def world0_def stat_def node_at_def)

lemma stat_world0:
  "stat world0 (Some (True, [''pp'', ''assets'', ''versions.json''])) = Inl ENOENT"
  by (simp add: world0_def stat_def node_at_def)

lemma mkdir_marker_world:
  "fst (os_MkdirAll (os_path (DashboardAssetsDir env0)) (marker_world n)) = Inr ()"
  by (simp add: os_path_assets0 os_MkdirAll_def marker_world_def world0_def node_at_def emit_def)

lemma mkdir_world0:
  "fst (os_MkdirAll (os_path (DashboardAssetsDir env0)) world0) = Inr ()"
  by (simp add: os_path_assets0 os_MkdirAll_def world0_def node_at_def emit_def)

lemma arch_env0: "staticFS env0 embeddedAssetArchiveName = Some (TarGz archive0)"
  by (simp add: env0_def embeddedAssetArchiveName_def)

lemma unmarshal_brace: "json_Unmarshal ''{'' = Inl SyntaxError"
  by (simp add: json_Unmarshal_def parse_json_def is_space_def tok_def)

text \<open>The definitions that a run of \<open>Ensure\<close> on the concrete installation unfolds.\<close>

lemmas eval_defs = Ensure_def installedAsstesMatchAppVersion_def loadReportAssetVersionFile_def
  FileExists_def os_Stat_def os_ReadFile_def stat_def node_at_def emit_def env0_def
  marker_world_def world0_def os_path_def Clean_def clean_elem_def Join_def
  EnsureDashboardAssetsDir_def os_MkdirAll_def staticFS_Open_def embeddedAssetArchiveName_def
  extractTarGz_def gzip_NewReader_def archive0_def TypeDir_def TypeReg_def os_Create_def
  open_trunc_def io_Copy_def file_Write_def content_def updateAssetVersionFile_def
  json_Marshal_def os_WriteFile_def json_Unmarshal_def parse_json_def is_space_def tok_def
  Let_def

subsection \<open>Claims about the version gate\<close>

text \<open>
  Claim C6. When the marker file is missing (\<open>os.Stat\<close> reports that it does not exist),
  \<open>loadReportAssetVersionFile\<close> returns the empty version file, whose version is the
  empty string, and no error; the only thing it does is the \<open>Stat\<close>. For a running
  version that is not the empty string the gate then reports a mismatch, so the assets
  are installed again.
\<close>

theorem load_missing_marker:
  assumes "stat w (os_path (ReportAssetsVersionFilePath E)) = Inl ENOENT"
  shows "loadReportAssetVersionFile E w =
           (Inr \<lparr>Version = []\<rparr>, emit (EvStat (os_path (ReportAssetsVersionFilePath E))) w)
         \<and> (AppVersion E \<noteq> [] \<longrightarrow> \<not> fst (installedAsstesMatchAppVersion E w))"
proof -
  have "persisted_marker E w = Absent"
    using assms by (auto simp: persisted_marker_def split: option.splits)
  then show ?thesis by (simp add: load_cases gate_cases)
qed

theorem load_missing_marker_witness:
  "stat world0 (os_path (ReportAssetsVersionFilePath env0)) = Inl ENOENT
   \<and> AppVersion env0 \<noteq> []
   \<and> loadReportAssetVersionFile env0 world0 =
       (Inr \<lparr>Version = []\<rparr>, emit (EvStat (os_path (ReportAssetsVersionFilePath env0))) world0)
   \<and> \<not> fst (installedAsstesMatchAppVersion env0 world0)"
proof -
  have h: "stat world0 (os_path (ReportAssetsVersionFilePath env0)) = Inl ENOENT"
    by (simp add: os_path_marker0 stat_world0)
  have v: "AppVersion env0 \<noteq> []" by (simp add: env0_def)
  show ?thesis using h v load_missing_marker[OF h] by blast
qed

text \<open>
  Claim C3. A marker file that exists and can be read, but whose content
  \<open>json.Unmarshal\<close> rejects, does not make \<open>Ensure\<close> fail at the gate: the loader returns
  the parse error, the gate reports a mismatch, and \<open>Ensure\<close> goes on to extract the
  archive (given that the archive is embedded and the assets directory can be made).
\<close>

theorem corrupt_marker_proceeds:
  assumes "os_path (ReportAssetsVersionFilePath E) = Some q"
      and "stat w (Some q) = Inr (File d)"
      and "\<not> unreadable w q"
      and "json_Unmarshal d = Inl e"
      and "staticFS E embeddedAssetArchiveName = Some gz"
      and "fst (os_MkdirAll (os_path (DashboardAssetsDir E)) w) = Inr ()"
  shows "fst (loadReportAssetVersionFile E w) = Inl e
         \<and> \<not> fst (installedAsstesMatchAppVersion E w)
         \<and> extraction_started w (snd (Ensure E w))"
proof -
  have l: "fst (loadReportAssetVersionFile E w) = Inl e"
    using assms(1-4)
    by (simp add: loadReportAssetVersionFile_def FileExists_def os_Stat_def os_ReadFile_def
        Let_def split: prod.splits)
  then have g: "\<not> fst (installedAsstesMatchAppVersion E w)"
    by (cases "loadReportAssetVersionFile E w") (simp add: installedAsstesMatchAppVersion_def)
  show ?thesis using l g Ensure_started[OF g assms(5,6)] by simp
qed

theorem corrupt_marker_proceeds_witness:
  "os_path (ReportAssetsVersionFilePath env0) = Some (True, [''pp'', ''assets'', ''versions.json''])
   \<and> stat (marker_world (File ''{'')) (Some (True, [''pp'', ''assets'', ''versions.json''])) = Inr (File ''{'')
   \<and> \<not> unreadable (marker_world (File ''{'')) (True, [''pp'', ''assets'', ''versions.json''])
   \<and> json_Unmarshal ''{'' = Inl SyntaxError
   \<and> staticFS env0 embeddedAssetArchiveName = Some (TarGz archive0)
   \<and> fst (os_MkdirAll (os_path (DashboardAssetsDir env0)) (marker_world (File ''{''))) = Inr ()
   \<and> fst (loadReportAssetVersionFile env0 (marker_world (File ''{''))) = Inl SyntaxError
   \<and> \<not> fst (installedAsstesMatchAppVersion env0 (marker_world (File ''{'')))
   \<and> extraction_started (marker_world (File ''{'')) (snd (Ensure env0 (marker_world (File ''{''))))"
proof -
  have u: "\<not> unreadable (marker_world (File ''{'')) (True, [''pp'', ''assets'', ''versions.json''])"
    by (simp add: marker_world_def world0_def)
  show ?thesis
    using corrupt_marker_proceeds[OF os_path_marker0 stat_marker_world u unmarshal_brace
            arch_env0 mkdir_marker_world]
      os_path_marker0 stat_marker_world u unmarshal_brace arch_env0 mkdir_marker_world
    by blast
qed

subsection \<open>The gate decides\<close>

lemma gate_world_fresh:
  assumes "persisted_marker E w = Marker m"
  shows "snd (installedAsstesMatchAppVersion E w) = w\<lparr>trace := trace w @ gate_events E\<rparr>"
  using assms by (simp add: gate_cases gate_events_def emit_def)

text \<open>
  Claim C1. For a running version that is not the empty string (a rendered semantic
  version never is), with the archive embedded and the assets directory available:
  \<open>Ensure\<close> enters the extraction exactly when the marker is absent, is corrupt, or holds
  another version. When the marker holds the running version \<open>Ensure\<close> returns success
  at once: the file tree is untouched and the only events are the two reads of the gate.
\<close>

theorem Ensure_version_gate:
  assumes "AppVersion E \<noteq> []"
      and "staticFS E embeddedAssetArchiveName = Some gz"
      and "fst (os_MkdirAll (os_path (DashboardAssetsDir E)) w) = Inr ()"
  shows "(extraction_started w (snd (Ensure E w)) \<longleftrightarrow>
            persisted_marker E w = Absent \<or> persisted_marker E w = Corrupt
            \<or> (\<exists>m. persisted_marker E w = Marker m \<and> Version m \<noteq> AppVersion E))
         \<and> ((\<exists>m. persisted_marker E w = Marker m \<and> Version m = AppVersion E) \<longrightarrow>
              Ensure E w = (Inr (), w\<lparr>trace := trace w @ gate_events E\<rparr>))"
proof -
  have st: "(persisted_marker E w = Absent \<or> persisted_marker E w = Corrupt
            \<or> (\<exists>m. persisted_marker E w = Marker m \<and> Version m \<noteq> AppVersion E)) = stale E w"
    by (cases "persisted_marker E w") (simp_all add: stale_def)
  have g: "fst (installedAsstesMatchAppVersion E w) = (\<not> stale E w)"
    using gate_stale[OF assms(1)] .
  have a: "extraction_started w (snd (Ensure E w)) \<longleftrightarrow> stale E w"
  proof (cases "stale E w")
    case True
    then show ?thesis using Ensure_started[OF _ assms(2,3)] g by simp
  next
    case False
    then show ?thesis using Ensure_not_started[of E w] g by simp
  qed
  have b: "Ensure E w = (Inr (), w\<lparr>trace := trace w @ gate_events E\<rparr>)"
    if "persisted_marker E w = Marker m" "Version m = AppVersion E" for m
  proof -
    have "fst (installedAsstesMatchAppVersion E w)" using that by (simp add: gate_cases)
    from Ensure_fresh[OF this] show ?thesis using gate_world_fresh[OF that(1)] by simp
  qed
  show ?thesis using a b st by blast
qed

lemma unmarshal_marker123: "json_Unmarshal marker123 = Inr \<lparr>Version = ''1.2.3''\<rparr>"
  by (simp add: marker123_def json_Unmarshal_def parse_json_def is_space_def tok_def
      string_step_def is_digit_def byte_in_def maxNestingDepth_def)

lemma faults_marker_world [simp]:
  "unreadable (marker_world n) p = False" "deny (marker_world n) p = False"
  "quota (marker_world n) p = None" "trace (marker_world n) = []"
  by (simp_all add: marker_world_def world0_def)

lemma persisted_marker123:
  "persisted_marker env0 (marker_world (File marker123)) = Marker \<lparr>Version = ''1.2.3''\<rparr>"
  by (simp add: persisted_marker_def os_path_marker0 stat_marker_world unmarshal_marker123)

theorem Ensure_version_gate_witness:
  "AppVersion env0 \<noteq> []
   \<and> staticFS env0 embeddedAssetArchiveName = Some (TarGz archive0)
   \<and> fst (os_MkdirAll (os_path (DashboardAssetsDir env0)) (marker_world (File marker123))) = Inr ()
   \<and> persisted_marker env0 (marker_world (File marker123)) = Marker \<lparr>Version = ''1.2.3''\<rparr>
   \<and> \<not> extraction_started (marker_world (File marker123))
          (snd (Ensure env0 (marker_world (File marker123))))
   \<and> Ensure env0 (marker_world (File marker123)) =
       (Inr (), (marker_world (File marker123))
                  \<lparr>trace := trace (marker_world (File marker123)) @ gate_events env0\<rparr>)"
proof -
  have v: "AppVersion env0 \<noteq> []" by (simp add: env0_def)
  have eq: "Version \<lparr>Version = ''1.2.3''\<rparr> = AppVersion env0" by (simp add: env0_def)
  show ?thesis
    using Ensure_version_gate[OF v arch_env0 mkdir_marker_world, of "File marker123"]
      v arch_env0 mkdir_marker_world[of "File marker123"] persisted_marker123 eq
    by (metis marker.distinct(3) marker.distinct(5) marker.inject)
qed

subsection \<open>Entries of other kinds\<close>

lemma extract_loop_append:
  "extract_loop (pre @ xs) dest w =
     (case extract_loop pre dest w of
        (Inl e, w') \<Rightarrow> (Inl e, w')
      | (Inr u, w') \<Rightarrow> extract_loop xs dest w')"
proof (induction pre arbitrary: w)
  case Nil
  then show ?case by simp
next
  case (Cons x pre)
  show ?case
  proof (cases x)
    case (Entry hdr d rerr)
    then show ?thesis
      by (simp add: Cons.IH Let_def split: prod.splits sum.splits)
  next
    case NilHeader
    then show ?thesis by (simp add: Cons.IH)
  next
    case (NextError e)
    then show ?thesis by simp
  qed
qed

lemma extractTarGz_Inl:
  "fst (extract_loop xs dest (emit (EvLog ''dashboardassets.extractTarGz start'') w)) = Inl e
   \<Longrightarrow> fst (extractTarGz (TarGz xs) dest w) = Inl e"
  by (auto simp: extractTarGz_def gzip_NewReader_def split: prod.splits)

lemma Ensure_extract_error:
  assumes "\<not> fst (installedAsstesMatchAppVersion E w)"
      and "staticFS E embeddedAssetArchiveName = Some gz"
      and "\<And>dest w'. \<exists>e. fst (extractTarGz gz dest w') = Inl e"
  shows "\<exists>e. fst (Ensure E w) = Inl e"
proof -
  obtain w1 where g1: "installedAsstesMatchAppVersion E w = (False, w1)"
    using assms(1) by (cases "installedAsstesMatchAppVersion E w") auto
  show ?thesis
  proof (cases "EnsureDashboardAssetsDir E w1")
    case (Pair r2 w2)
    show ?thesis
    proof (cases r2)
      case (Inl p)
      then show ?thesis using g1 Pair by (simp add: Ensure_def)
    next
      case (Inr path)
      obtain e where "fst (extractTarGz gz path (emit (EvOpenEmbedded embeddedAssetArchiveName) w2)) = Inl e"
        using assms(3) by blast
      then show ?thesis using g1 Pair Inr assms(2)
        by (cases "extractTarGz gz path (emit (EvOpenEmbedded embeddedAssetArchiveName) w2)")
           (simp add: Ensure_def staticFS_Open_def)
    qed
  qed
qed

text \<open>
  Claim C5. An entry whose type is neither directory nor regular file stops the
  extraction at that entry: the error is the explicit \<open>sperr.New\<close> error whose message
  gives the type and ends with the name of the entry, nothing is changed for the entry,
  and the entries after it are not read. An archive that contains such an entry is never
  extracted with success (the error is one of an earlier entry or this one), and
  \<open>Ensure\<close>, once past the gate with such an archive embedded, returns an error.
\<close>

theorem unknown_entry_rejected:
  assumes "Typeflag hdr \<noteq> TypeDir" and "Typeflag hdr \<noteq> TypeReg"
  shows "extract_loop (Entry hdr d rerr # rest) dest w =
           (Inl (SperrNew (''ExtractTarGz: uknown type: '' @ fmt_b (Typeflag hdr)
                           @ '' in '' @ Name hdr)), w)
         \<and> fst (extract_loop (pre @ Entry hdr d rerr # rest) dest w) =
             (case fst (extract_loop pre dest w) of
                Inl e \<Rightarrow> Inl e
              | Inr u \<Rightarrow> Inl (SperrNew (''ExtractTarGz: uknown type: '' @ fmt_b (Typeflag hdr)
                                        @ '' in '' @ Name hdr)))
         \<and> (\<not> fst (installedAsstesMatchAppVersion E w0) \<longrightarrow>
              staticFS E embeddedAssetArchiveName = Some (TarGz (pre @ Entry hdr d rerr # rest)) \<longrightarrow>
              (\<exists>e. fst (Ensure E w0) = Inl e))"
proof -
  have a: "extract_loop (Entry hdr d rerr # rest) dest w =
           (Inl (SperrNew (''ExtractTarGz: uknown type: '' @ fmt_b (Typeflag hdr)
                           @ '' in '' @ Name hdr)), w)" for dest w
    using assms by simp
  have b: "fst (extract_loop (pre @ Entry hdr d rerr # rest) dest w) =
             (case fst (extract_loop pre dest w) of
                Inl e \<Rightarrow> Inl e
              | Inr u \<Rightarrow> Inl (SperrNew (''ExtractTarGz: uknown type: '' @ fmt_b (Typeflag hdr)
                                        @ '' in '' @ Name hdr)))" for dest w
    unfolding extract_loop_append a by (simp split: prod.splits sum.splits)
  have c: "\<exists>e. fst (extractTarGz (TarGz (pre @ Entry hdr d rerr # rest)) dest w') = Inl e" for dest w'
  proof -
    have "\<exists>e. fst (extract_loop (pre @ Entry hdr d rerr # rest) dest
                   (emit (EvLog ''dashboardassets.extractTarGz start'') w')) = Inl e"
      unfolding b by (simp split: sum.splits)
    then show ?thesis using extractTarGz_Inl by blast
  qed
  show ?thesis using a b c Ensure_extract_error[of E w0 "TarGz (pre @ Entry hdr d rerr # rest)"]
    by blast
qed


theorem unknown_entry_rejected_witness:
  "Typeflag symlink_header \<noteq> TypeDir \<and> Typeflag symlink_header \<noteq> TypeReg
   \<and> \<not> fst (installedAsstesMatchAppVersion env_symlink world0)
   \<and> staticFS env_symlink embeddedAssetArchiveName =
        Some (TarGz (archive0 @ Entry symlink_header [] None # []))
   \<and> extract_loop (Entry symlink_header [] None # []) ''/pp/assets'' world0 =
       (Inl (SperrNew (''ExtractTarGz: uknown type: '' @ fmt_b (Typeflag symlink_header)
                       @ '' in '' @ Name symlink_header)), world0)
   \<and> (\<exists>e. fst (Ensure env_symlink world0) = Inl e)"
proof -
  have h1: "Typeflag symlink_header \<noteq> TypeDir" and h2: "Typeflag symlink_header \<noteq> TypeReg"
    by (simp_all add: symlink_header_def TypeDir_def TypeReg_def)
  have p: "persisted_marker env_symlink world0 = Absent"
    by (simp add: persisted_marker_def env_symlink_def os_path_marker0 stat_world0)
  have g: "\<not> fst (installedAsstesMatchAppVersion env_symlink world0)"
    by (simp add: gate_cases p) (simp add: env_symlink_def env0_def)
  have a: "staticFS env_symlink embeddedAssetArchiveName =
        Some (TarGz (archive0 @ Entry symlink_header [] None # []))"
    by (simp add: env_symlink_def embeddedAssetArchiveName_def)
  show ?thesis
    using unknown_entry_rejected[OF h1 h2, of "[]" None "[]" "''/pp/assets''" world0 archive0
            env_symlink world0] h1 h2 g a
    by blast
qed

subsection \<open>A marker that cannot be read\<close>

text \<open>
  Claim C10, as the code has it. The claim says that an unreadable marker ends like a
  corrupt one at the interface of \<open>Ensure\<close>. That holds up to the gate: when the marker
  exists but \<open>os.ReadFile\<close> fails, the error of the read is dropped and the empty content
  goes to \<open>json.Unmarshal\<close>, which rejects it; the loader returns that syntax error, as
  it does for an empty marker file, the gate reports a mismatch, and \<open>Ensure\<close> goes on
  to extract the archive. The error of the read itself never comes out of \<open>Ensure\<close>:
  the result is success or a wrapped error of the extraction or of the marker update.
  What does not hold is that the final result is that of a corrupt file: what kept the
  marker from being read can keep it from being written.
\<close>

theorem unreadable_marker_proceeds:
  assumes "stat w (os_path (ReportAssetsVersionFilePath E)) \<noteq> Inl ENOENT"
      and "fst (os_ReadFile (os_path (ReportAssetsVersionFilePath E)) w) = Inl e"
      and "staticFS E embeddedAssetArchiveName = Some gz"
      and "fst (os_MkdirAll (os_path (DashboardAssetsDir E)) w) = Inr ()"
  shows "fst (loadReportAssetVersionFile E w) = Inl SyntaxError
         \<and> json_Unmarshal [] = Inl SyntaxError
         \<and> persisted_marker E w = Corrupt
         \<and> \<not> fst (installedAsstesMatchAppVersion E w)
         \<and> extraction_started w (snd (Ensure E w))
         \<and> (fst (Ensure E w) = Inr ()
            \<or> (\<exists>e'. fst (Ensure E w) =
                   Inl (WrapWithMessage e' ''could not extract embedded dashboard assets archive''))
            \<or> (\<exists>e'. fst (Ensure E w) =
                   Inl (WrapWithMessage e' ''could not update dashboard assets version file'')))"
proof -
  have c: "persisted_marker E w = Corrupt"
    using assms(1,2)
    by (auto simp: persisted_marker_def os_ReadFile_def split: option.splits sum.splits node.splits if_splits)
  have l: "fst (loadReportAssetVersionFile E w) = Inl SyntaxError"
    using c assms(2) by (simp add: load_cases json_Unmarshal_Nil)
  have g: "\<not> fst (installedAsstesMatchAppVersion E w)"
    using c by (simp add: gate_cases)
  show ?thesis
    using c l g json_Unmarshal_Nil Ensure_started[OF g assms(3,4)]
      Ensure_stale_result[OF g assms(3,4)]
    by simp
qed

theorem unreadable_marker_proceeds_witness:
  "stat (marker_world Dir) (os_path (ReportAssetsVersionFilePath env0)) \<noteq> Inl ENOENT
   \<and> fst (os_ReadFile (os_path (ReportAssetsVersionFilePath env0)) (marker_world Dir)) = Inl EISDIR
   \<and> staticFS env0 embeddedAssetArchiveName = Some (TarGz archive0)
   \<and> fst (os_MkdirAll (os_path (DashboardAssetsDir env0)) (marker_world Dir)) = Inr ()
   \<and> fst (loadReportAssetVersionFile env0 (marker_world Dir)) = Inl SyntaxError
   \<and> persisted_marker env0 (marker_world Dir) = Corrupt
   \<and> \<not> fst (installedAsstesMatchAppVersion env0 (marker_world Dir))
   \<and> extraction_started (marker_world Dir) (snd (Ensure env0 (marker_world Dir)))
   \<and> (fst (Ensure env0 (marker_world Dir)) = Inr ()
      \<or> (\<exists>e'. fst (Ensure env0 (marker_world Dir)) =
             Inl (WrapWithMessage e' ''could not extract embedded dashboard assets archive''))
      \<or> (\<exists>e'. fst (Ensure env0 (marker_world Dir)) =
             Inl (WrapWithMessage e' ''could not update dashboard assets version file'')))"
proof -
  have h1: "stat (marker_world Dir) (os_path (ReportAssetsVersionFilePath env0)) \<noteq> Inl ENOENT"
    by (simp add: os_path_marker0 stat_marker_world)
  have h2: "fst (os_ReadFile (os_path (ReportAssetsVersionFilePath env0)) (marker_world Dir)) = Inl EISDIR"
    by (simp add: os_path_marker0 os_ReadFile_def stat_marker_world)
  show ?thesis
    using unreadable_marker_proceeds[OF h1 h2 arch_env0 mkdir_marker_world]
      h1 h2 arch_env0 mkdir_marker_world
    by blast
qed

text \<open>
  The counterexample to claim C10 as stated: with a directory at the path of the marker
  the marker exists and cannot be read; \<open>Ensure\<close> extracts the archive and then fails to
  write the marker, on the first run and again on the run after it; with a corrupt file
  at the same path \<open>Ensure\<close> succeeds.
\<close>

theorem unreadable_marker_distinct_failure:
  "stat (marker_world Dir) (os_path (ReportAssetsVersionFilePath env0)) = Inr Dir
   \<and> fst (os_ReadFile (os_path (ReportAssetsVersionFilePath env0)) (marker_world Dir)) = Inl EISDIR
   \<and> fst (Ensure env0 (marker_world Dir)) =
       Inl (WrapWithMessage
              (WrapWithMessage EISDIR ''could not write dashboard assets version file'')
              ''could not update dashboard assets version file'')
   \<and> fst (Ensure env0 (snd (Ensure env0 (marker_world Dir)))) =
       Inl (WrapWithMessage
              (WrapWithMessage EISDIR ''could not write dashboard assets version file'')
              ''could not update dashboard assets version file'')
   \<and> fst (Ensure env0 (marker_world (File ''{''))) = Inr ()"
proof -
  have a: "stat (marker_world Dir) (os_path (ReportAssetsVersionFilePath env0)) = Inr Dir"
    by (simp add: os_path_marker0 stat_marker_world)
  have b: "fst (os_ReadFile (os_path (ReportAssetsVersionFilePath env0)) (marker_world Dir)) = Inl EISDIR"
    by (simp add: os_path_marker0 os_ReadFile_def stat_marker_world)
  have c: "fst (Ensure env0 (marker_world Dir)) =
       Inl (WrapWithMessage
              (WrapWithMessage EISDIR ''could not write dashboard assets version file'')
              ''could not update dashboard assets version file'')"
    by (simp add: eval_defs)
  have d: "fst (Ensure env0 (snd (Ensure env0 (marker_world Dir)))) =
       Inl (WrapWithMessage
              (WrapWithMessage EISDIR ''could not write dashboard assets version file'')
              ''could not update dashboard assets version file'')"
    by (simp add: eval_defs)
  have e: "fst (Ensure env0 (marker_world (File ''{''))) = Inr ()"
    by (simp add: eval_defs escape_ascii_def)
  show ?thesis using a b c d e by blast
qed

subsection \<open>The file tree under the operations\<close>

lemma mkdir_walk_faults:
  "mkdir_walk r pre cs w = (res, w') \<Longrightarrow>
   deny w' = deny w \<and> unreadable w' = unreadable w \<and> quota w' = quota w"
  by (induction cs arbitrary: pre w) (auto split: option.splits node.splits if_splits)

lemma mkdir_walk_keeps:
  "mkdir_walk r pre cs w = (res, w') \<Longrightarrow> node_at w p = Some n \<Longrightarrow> node_at w' p = Some n"
proof (induction cs arbitrary: pre w)
  case Nil
  then show ?case by (auto simp: node_at_def split: option.splits node.splits if_splits)
next
  case (Cons c cs)
  show ?case
  proof (cases "node_at w (r, pre)")
    case None
    show ?thesis
    proof (cases "deny w (r, pre)")
      case True
      then show ?thesis using None Cons.prems by simp
    next
      case False
      have "node_at (w\<lparr>files := (files w)((r, pre) \<mapsto> Dir)\<rparr>) p = Some n"
        using None Cons.prems(2) by (auto simp: node_at_def split: if_splits)
      then show ?thesis using Cons.IH[of "pre @ [c]" "w\<lparr>files := (files w)((r, pre) \<mapsto> Dir)\<rparr>"]
          Cons.prems(1) None False by simp
    qed
  next
    case (Some nd)
    then show ?thesis using Cons by (cases nd) auto
  qed
qed

lemma mkdir_walk_beyond:
  "mkdir_walk r pre cs w = (res, w') \<Longrightarrow> length pre + length cs < length (snd q) \<Longrightarrow>
   files w' q = files w q"
proof (induction cs arbitrary: pre w)
  case Nil
  then show ?case by (auto split: option.splits node.splits if_splits)
next
  case (Cons c cs)
  show ?case
  proof (cases "node_at w (r, pre)")
    case None
    show ?thesis
    proof (cases "deny w (r, pre)")
      case True
      then show ?thesis using None Cons.prems by simp
    next
      case False
      have "files w' q = files (w\<lparr>files := (files w)((r, pre) \<mapsto> Dir)\<rparr>) q"
        using Cons.IH[of "pre @ [c]" "w\<lparr>files := (files w)((r, pre) \<mapsto> Dir)\<rparr>"]
          Cons.prems None False by simp
      then show ?thesis using Cons.prems(2) by auto
    qed
  next
    case (Some nd)
    then show ?thesis using Cons.IH[of "pre @ [c]" w] Cons.prems by (cases nd) auto
  qed
qed

lemma mkdir_walk_made:
  "mkdir_walk r pre cs w = (Inr u, w') \<Longrightarrow> stat_walk w' r pre cs = Inr Dir"
proof (induction cs arbitrary: pre w)
  case Nil
  then show ?case by (auto simp: node_at_def split: option.splits node.splits if_splits)
next
  case (Cons c cs)
  show ?case
  proof (cases "node_at w (r, pre)")
    case None
    show ?thesis
    proof (cases "deny w (r, pre)")
      case True
      then show ?thesis using None Cons.prems by simp
    next
      case False
      define w1 where "w1 = w\<lparr>files := (files w)((r, pre) \<mapsto> Dir)\<rparr>"
      have m: "mkdir_walk r (pre @ [c]) cs w1 = (Inr u, w')"
        using Cons.prems None False by (simp add: w1_def)
      have "node_at w1 (r, pre) = Some Dir" by (simp add: w1_def node_at_def)
      then have "node_at w' (r, pre) = Some Dir" using mkdir_walk_keeps[OF m] by simp
      then show ?thesis using Cons.IH[OF m] by simp
    qed
  next
    case (Some nd)
    show ?thesis
    proof (cases nd)
      case Dir
      then have m: "mkdir_walk r (pre @ [c]) cs w = (Inr u, w')" using Cons.prems Some by simp
      have "node_at w' (r, pre) = Some Dir" using mkdir_walk_keeps[OF m] Some Dir by simp
      then show ?thesis using Cons.IH[OF m] by simp
    next
      case (File x)
      then show ?thesis using Cons.prems Some by simp
    qed
  qed
qed

text \<open>\<open>stat\<close> looks only at the nodes on the way to the path.\<close>

lemma stat_walk_agree:
  "(\<And>q. length (snd q) \<le> length pre + length cs \<Longrightarrow> files w' q = files w q) \<Longrightarrow>
   stat_walk w' r pre cs = stat_walk w r pre cs"
proof (induction cs arbitrary: pre)
  case Nil
  then show ?case by (simp add: node_at_def)
next
  case (Cons c cs)
  have n: "node_at w' (r, pre) = node_at w (r, pre)" using Cons.prems by (simp add: node_at_def)
  have "stat_walk w' r (pre @ [c]) cs = stat_walk w r (pre @ [c]) cs"
    by (rule Cons.IH) (use Cons.prems in simp)
  then show ?case using n by (simp split: option.splits node.splits)
qed

lemma stat_walk_snoc:
  "stat_walk w r pre (cs @ [c]) =
     (case stat_walk w r pre cs of
        Inl e \<Rightarrow> Inl e
      | Inr (File x) \<Rightarrow> Inl ENOTDIR
      | Inr Dir \<Rightarrow> (case node_at w (r, pre @ cs @ [c]) of None \<Rightarrow> Inl ENOENT | Some n \<Rightarrow> Inr n))"
  by (induction cs arbitrary: pre) (auto split: option.splits node.splits)


lemma stat_put:
  assumes "cs \<noteq> []" and "stat w (Some (r, butlast cs)) = Inr Dir"
      and "files w' = (files w)((r, cs) \<mapsto> n)"
  shows "stat w' (Some (r, cs)) = Inr n" and "stat w' (Some (r, butlast cs)) = Inr Dir"
proof -
  have cs: "cs = butlast cs @ [last cs]" using assms(1) by simp
  have a: "stat_walk w' r [] (butlast cs) = stat_walk w r [] (butlast cs)"
  proof (rule stat_walk_agree)
    fix q :: path
    assume "length (snd q) \<le> length ([] :: string list) + length (butlast cs)"
    moreover have "length (butlast cs) < length cs" using assms(1) by (cases cs) auto
    ultimately have "q \<noteq> (r, cs)" by auto
    then show "files w' q = files w q" using assms(3) by simp
  qed
  then show "stat w' (Some (r, butlast cs)) = Inr Dir" using assms(2) by (simp add: stat_def)
  have "stat_walk w' r [] (butlast cs @ [last cs]) = Inr n"
    unfolding stat_walk_snoc using a assms(1,2,3) cs by (simp add: stat_def node_at_def)
  then show "stat w' (Some (r, cs)) = Inr n" using cs by (simp add: stat_def)
qed

lemma os_Create_ok:
  assumes "cs \<noteq> []" and "stat w (Some (r, butlast cs)) = Inr Dir"
      and "files w (r, cs) \<noteq> Some Dir" and "\<not> deny w (r, cs)"
  shows "os_Create (Some (r, cs)) w =
           (Inr (r, cs), (emit (EvCreate (Some (r, cs))) w)\<lparr>files := (files w)((r, cs) \<mapsto> File [])\<rparr>)"
  using assms
  by (auto simp: os_Create_def open_trunc_def node_at_def split: option.splits node.splits)

lemma io_Copy_ok:
  assumes "files w f = Some (File [])"
      and "case quota w f of None \<Rightarrow> True | Some k \<Rightarrow> length d \<le> k"
  shows "io_Copy f d None w =
           (Inr (length d), (emit (EvCopy f d) w)\<lparr>files := (files w)(f \<mapsto> File d)\<rparr>)"
  using assms by (auto simp: io_Copy_def file_Write_def content_def split: option.splits)

lemma os_MkdirAll_ok:
  assumes "fst (os_MkdirAll (Some (r, cs)) w0) = Inr ()"
      and "files w0 = files w" and "deny w0 = deny w"
  obtains w' where "os_MkdirAll (Some (r, cs)) w = (Inr (), w')"
    and "stat w' (Some (r, cs)) = Inr Dir"
    and "\<And>q. length cs < length (snd q) \<Longrightarrow> files w' q = files w q"
    and "deny w' = deny w" and "quota w' = quota w" and "unreadable w' = unreadable w"
    and "trace w' = trace w @ [EvMkdirAll (Some (r, cs))]"
proof -
  have "fst (os_MkdirAll (Some (r, cs)) w) = Inr ()"
    using os_MkdirAll_indep[OF assms(2,3), of "Some (r, cs)"] assms(1) by simp
  then obtain w' where m: "os_MkdirAll (Some (r, cs)) w = (Inr (), w')"
    by (cases "os_MkdirAll (Some (r, cs)) w") auto
  then have mw: "mkdir_walk r [] cs (emit (EvMkdirAll (Some (r, cs))) w) = (Inr (), w')"
    by (simp add: os_MkdirAll_def)
  have 1: "stat w' (Some (r, cs)) = Inr Dir" using mkdir_walk_made[OF mw] by (simp add: stat_def)
  have 2: "files w' q = files w q" if "length cs < length (snd q)" for q
    using mkdir_walk_beyond[OF mw, of q] that by simp
  have 3: "deny w' = deny w" "quota w' = quota w" "unreadable w' = unreadable w"
    using mkdir_walk_faults[OF mw] by simp_all
  show ?thesis using that[OF m 1 2 3 trace_os_MkdirAll[OF m]] by blast
qed

subsection \<open>The synthetic archive\<close>

lemma local_a: "local_name ''a/''" and local_ab: "local_name ''a/b.txt''"
  by (simp_all add: local_name_def clean_elem_def)

lemma Join_a:
  "dest \<noteq> [] \<Longrightarrow> Join dest ''a/'' = Some (fst (Clean dest), snd (Clean dest) @ [''a''])"
  using Join_local[OF _ local_a, of dest] by (simp add: clean_elem_def)

lemma Join_ab:
  "dest \<noteq> [] \<Longrightarrow> Join dest ''a/b.txt'' = Some (fst (Clean dest), snd (Clean dest) @ [''a'', ''b.txt''])"
  using Join_local[OF _ local_ab, of dest] by (simp add: clean_elem_def)

text \<open>
  Claim C2. The archive with the directory entry \<open>a/\<close> and the file entry \<open>a/b.txt\<close>
  holding \<open>hi\<close>, extracted into a destination where the directory \<open>a\<close> can be made and
  nothing keeps \<open>a/b.txt\<close> from being written (no directory of that name, no denied
  access, room for two bytes): \<open>extractTarGz\<close> returns no error, the end of the archive
  being the normal end of the loop, and afterwards \<open>a\<close> below the destination root is a
  directory and \<open>a/b.txt\<close> is a file with the content \<open>hi\<close>.
\<close>

theorem extract_synthetic_archive:
  assumes "dest \<noteq> []"
      and "fst (os_MkdirAll (Join dest ''a/'') w) = Inr ()"
      and "files w (fst (Clean dest), snd (Clean dest) @ [''a'', ''b.txt'']) \<noteq> Some Dir"
      and "\<not> deny w (fst (Clean dest), snd (Clean dest) @ [''a'', ''b.txt''])"
      and "case quota w (fst (Clean dest), snd (Clean dest) @ [''a'', ''b.txt'']) of
             None \<Rightarrow> True | Some k \<Rightarrow> 2 \<le> k"
  shows "fst (extractTarGz (TarGz archive0) dest w) = Inr ()
         \<and> stat (snd (extractTarGz (TarGz archive0) dest w)) (Join dest ''a/'') = Inr Dir
         \<and> stat (snd (extractTarGz (TarGz archive0) dest w)) (Join dest ''a/b.txt'') = Inr (File ''hi'')
         \<and> Join dest ''a/'' = Some (fst (Clean dest), snd (Clean dest) @ [''a''])
         \<and> Join dest ''a/b.txt'' = Some (fst (Clean dest), snd (Clean dest) @ [''a'', ''b.txt''])"
proof -
  define r where "r = fst (Clean dest)"
  define D where "D = snd (Clean dest)"
  define ta where "ta = D @ [''a'']"
  define tb where "tb = D @ [''a'', ''b.txt'']"
  have ja: "Join dest ''a/'' = Some (r, ta)" using Join_a[OF assms(1)] by (simp add: r_def D_def ta_def)
  have jb: "Join dest ''a/b.txt'' = Some (r, tb)" using Join_ab[OF assms(1)] by (simp add: r_def D_def tb_def)
  have bl: "butlast tb = ta" "tb \<noteq> []" by (simp_all add: tb_def ta_def butlast_append)
  define w0 where "w0 = emit (EvLog ''dashboardassets.extractTarGz start'') w"
  have "fst (os_MkdirAll (Some (r, ta)) w) = Inr ()" using assms(2) ja by simp
  then obtain w1 where m: "os_MkdirAll (Some (r, ta)) w0 = (Inr (), w1)"
    and s1: "stat w1 (Some (r, ta)) = Inr Dir"
    and f1: "\<And>q. length ta < length (snd q) \<Longrightarrow> files w1 q = files w0 q"
    and d1: "deny w1 = deny w0" and q1: "quota w1 = quota w0"
    by (rule os_MkdirAll_ok[of r ta w w0]) (simp_all add: w0_def)
  define w1s where "w1s = emit (EvSetStatus (''Extracting '' @ ''a/b.txt'' @ ellipsis)) w1"
  have fb: "files w1s (r, tb) = files w (r, tb)"
    using f1[of "(r, tb)"] by (simp add: w1s_def w0_def tb_def ta_def)
  define w2 where "w2 = (emit (EvCreate (Some (r, tb))) w1s)\<lparr>files := (files w1s)((r, tb) \<mapsto> File [])\<rparr>"
  have c: "os_Create (Some (r, tb)) w1s = (Inr (r, tb), w2)"
    unfolding w2_def
  proof (rule os_Create_ok)
    show "tb \<noteq> []" by (rule bl)
    show "stat w1s (Some (r, butlast tb)) = Inr Dir" using s1 bl by (simp add: w1s_def)
    show "files w1s (r, tb) \<noteq> Some Dir" using fb assms(3) by (simp add: r_def D_def tb_def)
    show "\<not> deny w1s (r, tb)" using d1 assms(4) by (simp add: w1s_def w0_def r_def D_def tb_def)
  qed
  define w3 where "w3 = (emit (EvCopy (r, tb) ''hi'') w2)\<lparr>files := (files w2)((r, tb) \<mapsto> File ''hi'')\<rparr>"
  have cp: "io_Copy (r, tb) ''hi'' None w2 = (Inr (length ''hi''), w3)"
    unfolding w3_def
  proof (rule io_Copy_ok)
    show "files w2 (r, tb) = Some (File [])" by (simp add: w2_def)
    have "quota w2 (r, tb) = quota w (r, tb)" using q1 by (simp add: w2_def w1s_def w0_def)
    then show "case quota w2 (r, tb) of None \<Rightarrow> True | Some k \<Rightarrow> length ''hi'' \<le> k"
      using assms(5) by (simp add: r_def D_def tb_def split: option.splits)
  qed
  have loop: "extract_loop archive0 dest w0 = (Inr (), w3)"
    using ja jb m c cp
    by (simp add: archive0_def TypeDir_def TypeReg_def w1s_def)
  have res: "extractTarGz (TarGz archive0) dest w =
               (Inr (), emit (EvLog ''dashboardassets.extractTarGz end'') w3)"
    using loop by (simp add: extractTarGz_def gzip_NewReader_def w0_def)
  have f3: "files w3 = (files w1s)((r, tb) \<mapsto> File ''hi'')" by (simp add: w3_def w2_def)
  have s1s: "stat w1s (Some (r, butlast tb)) = Inr Dir" using s1 bl by (simp add: w1s_def)
  have sb: "stat w3 (Some (r, tb)) = Inr (File ''hi'')"
    and sa: "stat w3 (Some (r, butlast tb)) = Inr Dir"
    using stat_put[OF bl(2) s1s f3] by simp_all
  show ?thesis using res ja jb sa sb bl by (simp add: r_def D_def ta_def tb_def)
qed


theorem extract_synthetic_archive_witness:
  "''/d'' \<noteq> []
   \<and> fst (os_MkdirAll (Join ''/d'' ''a/'') world0) = Inr ()
   \<and> files world0 (fst (Clean ''/d''), snd (Clean ''/d'') @ [''a'', ''b.txt'']) \<noteq> Some Dir
   \<and> \<not> deny world0 (fst (Clean ''/d''), snd (Clean ''/d'') @ [''a'', ''b.txt''])
   \<and> (case quota world0 (fst (Clean ''/d''), snd (Clean ''/d'') @ [''a'', ''b.txt'']) of
         None \<Rightarrow> True | Some k \<Rightarrow> 2 \<le> k)
   \<and> fst (extractTarGz (TarGz archive0) ''/d'' world0) = Inr ()
   \<and> stat (snd (extractTarGz (TarGz archive0) ''/d'' world0)) (Some (True, [''d'', ''a''])) = Inr Dir
   \<and> stat (snd (extractTarGz (TarGz archive0) ''/d'' world0)) (Some (True, [''d'', ''a'', ''b.txt'']))
       = Inr (File ''hi'')"
proof -
  have h1: "''/d'' \<noteq> []" by simp
  have cl: "Clean ''/d'' = (True, [''d''])" by (simp add: Clean_def clean_elem_def)
  have h2: "fst (os_MkdirAll (Join ''/d'' ''a/'') world0) = Inr ()"
    by (simp add: Join_a cl os_MkdirAll_def world0_def node_at_def emit_def)
  have h3: "files world0 (fst (Clean ''/d''), snd (Clean ''/d'') @ [''a'', ''b.txt'']) \<noteq> Some Dir"
    by (simp add: world0_def)
  have h4: "\<not> deny world0 (fst (Clean ''/d''), snd (Clean ''/d'') @ [''a'', ''b.txt''])"
    by (simp add: world0_def)
  have h5: "case quota world0 (fst (Clean ''/d''), snd (Clean ''/d'') @ [''a'', ''b.txt'']) of
         None \<Rightarrow> True | Some k \<Rightarrow> 2 \<le> k"
    by (simp add: world0_def)
  show ?thesis
    using extract_synthetic_archive[OF h1 h2 h3 h4 h5] h1 h2 h3 h4 h5 by (auto simp: cl)
qed

subsection \<open>Writing the marker and reading it back\<close>

lemma version_char_plain: "version_char c \<Longrightarrow> plain_char c"
  by (auto simp: version_char_def plain_char_def byte_in_def)


lemma escape_plain:
  assumes "plain_char c"
  shows "escape_ascii c = [c]"
proof -
  have lo: "\<not> (of_char c :: nat) < 0x20" using assms by (simp add: plain_char_def byte_in_def)
  have 1: "c \<noteq> CHR 0x5C" "c \<noteq> CHR 0x22" "c \<noteq> CHR ''<''" "c \<noteq> CHR ''>''" "c \<noteq> CHR ''&''"
    using assms by (simp_all add: plain_char_def)
  have 2: "c \<noteq> CHR 0x08" "c \<noteq> CHR 0x0C" "c \<noteq> CHR 0x0A" "c \<noteq> CHR 0x0D" "c \<noteq> CHR 0x09"
    using lo by auto
  show ?thesis using lo 1 2 by (simp add: escape_ascii_def)
qed

lemma plain_ascii: "plain_char c \<Longrightarrow> (of_char c :: nat) < 0x80 \<and> \<not> (of_char c :: nat) < 0x20"
  by (auto simp: plain_char_def byte_in_def)


lemma quote_body_plain: "list_all plain_char v \<Longrightarrow> quote_body v = v"
  by (induction v) (simp_all add: escape_plain plain_ascii)

lemma string_step_plain: "plain_char c \<Longrightarrow> string_step (c # cs) = Some ([c], 1)"
  using plain_ascii[of c] by (simp add: string_step_def plain_char_def)

lemma string_lit_plain:
  "list_all plain_char v \<Longrightarrow> string_lit (v @ CHR 0x22 # rest) = Some (v, Suc (length v))"
proof (induction v)
  case Nil
  then show ?case by simp
next
  case (Cons c v)
  then have "c \<noteq> CHR 0x22" by (simp add: plain_char_def)
  then show ?case using Cons by (simp add: string_step_plain)
qed


lemma lex_quote:
  "string_lit cs = Some (s, n) \<Longrightarrow> lex (CHR 0x22 # cs) = tok (TString s) (lex (drop n cs))"
  by (simp add: is_space_def)

lemma lex_punct:
  "lex (CHR ''{'' # cs) = tok TLBrace (lex cs)"
  "lex (CHR ''}'' # cs) = tok TRBrace (lex cs)"
  "lex (CHR '':'' # cs) = tok TColon (lex cs)"
  by (simp_all add: is_space_def)

lemma lex_marker:
  assumes "list_all plain_char v"
  shows "lex ([CHR ''{'', CHR 0x22] @ ''version'' @ [CHR 0x22, CHR '':'', CHR 0x22] @ v @ [CHR 0x22, CHR ''}''])
          = Some [TLBrace, TString ''version'', TColon, TString v, TRBrace]"
proof -
  have k: "string_lit (''version'' @ CHR 0x22 # (CHR '':'' # CHR 0x22 # v @ [CHR 0x22, CHR ''}'']))
            = Some (''version'', Suc (length ''version''))"
    by (rule string_lit_plain) (simp add: plain_char_def byte_in_def)
  have s: "string_lit (v @ CHR 0x22 # [CHR ''}'']) = Some (v, Suc (length v))"
    using string_lit_plain[OF assms] .
  have t: "lex (CHR 0x22 # v @ CHR 0x22 # [CHR ''}'']) = Some [TString v, TRBrace]"
    by (simp add: lex_quote[OF s] lex_punct tok_def del: lex.simps) simp
  have c: "lex (CHR '':'' # CHR 0x22 # v @ CHR 0x22 # [CHR ''}'']) = Some [TColon, TString v, TRBrace]"
    by (simp add: lex_punct t tok_def del: lex.simps)
  have "drop (Suc (length ''version''))
          (''version'' @ CHR 0x22 # (CHR '':'' # CHR 0x22 # v @ [CHR 0x22, CHR ''}'']))
        = CHR '':'' # CHR 0x22 # v @ CHR 0x22 # [CHR ''}'']"
    by simp
  then have q: "lex (CHR 0x22 # ''version'' @ CHR 0x22 # (CHR '':'' # CHR 0x22 # v @ [CHR 0x22, CHR ''}'']))
          = Some [TString ''version'', TColon, TString v, TRBrace]"
    by (simp only: lex_quote[OF k] c tok_def option.map list.simps)
  have "[CHR ''{'', CHR 0x22] @ ''version'' @ [CHR 0x22, CHR '':'', CHR 0x22] @ v @ [CHR 0x22, CHR ''}'']
        = CHR ''{'' # (CHR 0x22 # ''version'' @ CHR 0x22 # (CHR '':'' # CHR 0x22 # v @ [CHR 0x22, CHR ''}'']))"
    by simp
  then show ?thesis by (simp only: lex_punct q tok_def option.map)
qed

lemma json_roundtrip_plain:
  assumes "list_all plain_char v"
  shows "case json_Marshal \<lparr>Version = v\<rparr> of
           Inl e \<Rightarrow> False
         | Inr js \<Rightarrow> json_Unmarshal js = Inr \<lparr>Version = v\<rparr>"
  using lex_marker[OF assms]
  by (simp add: json_Marshal_def quote_body_plain[OF assms] json_Unmarshal_def parse_json_def
      maxNestingDepth_def del: lex.simps)


lemma os_WriteFile_done:
  assumes "os_WriteFile p d w = (Inr u, w')"
  shows "\<exists>r cs. p = Some (r, cs) \<and> cs \<noteq> [] \<and> stat w (Some (r, butlast cs)) = Inr Dir
           \<and> files w' = (files w)((r, cs) \<mapsto> File d)
           \<and> unreadable w' = unreadable w \<and> deny w' = deny w \<and> quota w' = quota w
           \<and> trace w' = trace w @ [EvWriteFile p d]"
  using assms
  by (auto simp: os_WriteFile_def open_trunc_def file_Write_def content_def
      split: option.splits sum.splits node.splits if_splits prod.splits)

lemma update_done:
  assumes "fst (updateAssetVersionFile E w) = Inr ()"
      and "list_all plain_char (AppVersion E)"
      and "case os_path (ReportAssetsVersionFilePath E) of None \<Rightarrow> True | Some q \<Rightarrow> \<not> unreadable w q"
  shows "persisted_marker E (snd (updateAssetVersionFile E w)) = Marker \<lparr>Version = AppVersion E\<rparr>"
proof -
  obtain js where js: "json_Marshal \<lparr>Version = AppVersion E\<rparr> = Inr js"
    by (simp add: json_Marshal_def)
  have u: "json_Unmarshal js = Inr \<lparr>Version = AppVersion E\<rparr>"
    using json_roundtrip_plain[OF assms(2)] js by simp
  obtain res w' where wf: "os_WriteFile (os_path (ReportAssetsVersionFilePath E)) js w = (res, w')"
    by (cases "os_WriteFile (os_path (ReportAssetsVersionFilePath E)) js w")
  have res: "res = Inr ()" and w': "snd (updateAssetVersionFile E w) = w'"
    using assms(1) js wf by (auto simp: updateAssetVersionFile_def split: sum.splits)
  from os_WriteFile_done[OF wf[unfolded res]] obtain r cs where
    p: "os_path (ReportAssetsVersionFilePath E) = Some (r, cs)" and cs: "cs \<noteq> []"
    and par: "stat w (Some (r, butlast cs)) = Inr Dir"
    and f: "files w' = (files w)((r, cs) \<mapsto> File js)"
    and ur: "unreadable w' = unreadable w"
    by blast
  have "stat w' (Some (r, cs)) = Inr (File js)" using stat_put(1)[OF cs par f] .
  then show ?thesis using p ur assms(3) u by (simp add: persisted_marker_def w')
qed


lemma version_string_plain: "version_string v \<Longrightarrow> list_all plain_char v"
  by (auto simp: version_string_def list_all_iff version_char_plain)

text \<open>
  Claim C7. For a version string \<open>v\<close> (the characters of a rendered semantic version,
  as in \<open>1.2.3\<close>): when \<open>updateAssetVersionFile\<close> has written the marker for \<open>v\<close>
  without error and the marker file may be read, \<open>loadReportAssetVersionFile\<close> returns,
  without error, the version file whose version is \<open>v\<close>: the value that was written.
\<close>

theorem marker_roundtrip:
  assumes "version_string (AppVersion E)"
      and "fst (updateAssetVersionFile E w) = Inr ()"
      and "case os_path (ReportAssetsVersionFilePath E) of
             None \<Rightarrow> True | Some q \<Rightarrow> \<not> unreadable w q"
  shows "fst (loadReportAssetVersionFile E (snd (updateAssetVersionFile E w)))
           = Inr \<lparr>Version = AppVersion E\<rparr>
         \<and> json_Marshal \<lparr>Version = AppVersion E\<rparr>
           = Inr ([CHR ''{'', CHR 0x22] @ ''version'' @ [CHR 0x22, CHR '':'', CHR 0x22]
                  @ AppVersion E @ [CHR 0x22, CHR ''}''])"
proof -
  have pl: "list_all plain_char (AppVersion E)" using assms(1) by (rule version_string_plain)
  have "persisted_marker E (snd (updateAssetVersionFile E w)) = Marker \<lparr>Version = AppVersion E\<rparr>"
    using update_done[OF assms(2) pl assms(3)] .
  then show ?thesis by (simp add: load_cases json_Marshal_def quote_body_plain[OF pl])
qed

lemma version_string_123: "version_string ''1.2.3''"
  by (simp add: version_string_def version_char_def byte_in_def)

lemma update_marker_world:
  "fst (updateAssetVersionFile env0 (marker_world n)) = (if n = Dir then
      Inl (WrapWithMessage EISDIR ''could not write dashboard assets version file'') else Inr ())"
  by (cases n) (simp_all add: eval_defs escape_ascii_def)

theorem marker_roundtrip_witness:
  "version_string (AppVersion env0)
   \<and> fst (updateAssetVersionFile env0 (marker_world (File []))) = Inr ()
   \<and> (case os_path (ReportAssetsVersionFilePath env0) of
         None \<Rightarrow> True | Some q \<Rightarrow> \<not> unreadable (marker_world (File [])) q)
   \<and> fst (loadReportAssetVersionFile env0 (snd (updateAssetVersionFile env0 (marker_world (File [])))))
       = Inr \<lparr>Version = ''1.2.3''\<rparr>"
proof -
  have h1: "version_string (AppVersion env0)" using version_string_123 by (simp add: env0_def)
  have h2: "fst (updateAssetVersionFile env0 (marker_world (File []))) = Inr ()"
    by (simp add: update_marker_world)
  have h3: "case os_path (ReportAssetsVersionFilePath env0) of
         None \<Rightarrow> True | Some q \<Rightarrow> \<not> unreadable (marker_world (File [])) q"
    by (simp add: os_path_marker0)
  have v: "AppVersion env0 = ''1.2.3''" by (simp add: env0_def)
  show ?thesis using marker_roundtrip[OF h1 h2 h3] h1 h2 h3 v by simp
qed

subsection \<open>The second run\<close>

lemma os_MkdirAll_unreadable: "os_MkdirAll p w = (res, w') \<Longrightarrow> unreadable w' = unreadable w"
  by (auto simp: os_MkdirAll_def split: option.splits dest!: mkdir_walk_faults)

lemma os_Create_unreadable: "os_Create p w = (res, w') \<Longrightarrow> unreadable w' = unreadable w"
  by (auto simp: os_Create_def open_trunc_def split: option.splits sum.splits node.splits if_splits)

lemma io_Copy_unreadable: "io_Copy f d rerr w = (res, w') \<Longrightarrow> unreadable w' = unreadable w"
  by (auto simp: io_Copy_def file_Write_def split: option.splits sum.splits if_splits prod.splits)

lemma extract_loop_unreadable: "unreadable (snd (extract_loop xs dest w)) = unreadable w"
proof (induction xs arbitrary: w)
  case Nil
  then show ?case by simp
next
  case (Cons x xs)
  show ?case
  proof (cases x)
    case (Entry hdr d rerr)
    show ?thesis
    proof (cases "Typeflag hdr = TypeDir")
      case True
      obtain r w1 where m: "os_MkdirAll (Join dest (Name hdr)) w = (r, w1)"
        by (cases "os_MkdirAll (Join dest (Name hdr)) w")
      then show ?thesis using Entry True os_MkdirAll_unreadable[OF m] Cons.IH[of w1]
        by (cases r) simp_all
    next
      case False
      show ?thesis
      proof (cases "Typeflag hdr = TypeReg")
        case nreg: False
        then show ?thesis using Entry False by simp
      next
        case True
        define w0 where "w0 = emit (EvSetStatus (''Extracting '' @ Name hdr @ ellipsis)) w"
        obtain r w1 where c: "os_Create (Join dest (Name hdr)) w0 = (r, w1)"
          by (cases "os_Create (Join dest (Name hdr)) w0")
        have u1: "unreadable w1 = unreadable w" using os_Create_unreadable[OF c] by (simp add: w0_def)
        show ?thesis
        proof (cases r)
          case (Inl e)
          then show ?thesis using Entry False True c u1 by (simp add: w0_def)
        next
          case (Inr f)
          obtain r2 w2 where cp: "io_Copy f d rerr w1 = (r2, w2)" by (cases "io_Copy f d rerr w1")
          have u2: "unreadable w2 = unreadable w" using io_Copy_unreadable[OF cp] u1 by simp
          show ?thesis using Entry False True c Inr cp u2 Cons.IH[of w2]
            by (cases r2) (simp_all add: w0_def)
        qed
      qed
    qed
  next
    case NilHeader
    then show ?thesis using Cons.IH by simp
  next
    case (NextError e)
    then show ?thesis by simp
  qed
qed

lemma extractTarGz_unreadable: "unreadable (snd (extractTarGz gz dest w)) = unreadable w"
proof (cases "gzip_NewReader gz")
  case (Inl e)
  then show ?thesis by (simp add: extractTarGz_def)
next
  case (Inr xs)
  obtain r w' where l: "extract_loop xs dest (emit (EvLog ''dashboardassets.extractTarGz start'') w) = (r, w')"
    by (cases "extract_loop xs dest (emit (EvLog ''dashboardassets.extractTarGz start'') w)")
  have "unreadable w' = unreadable w"
    using extract_loop_unreadable[of xs dest "emit (EvLog ''dashboardassets.extractTarGz start'') w"] l
    by simp
  then show ?thesis using Inr l by (simp add: extractTarGz_def)
qed

lemma persisted_marker_cong:
  assumes "files w' = files w" and "unreadable w' = unreadable w"
  shows "persisted_marker E w' = persisted_marker E w"
proof -
  have st: "stat w' = stat w" using stat_files[OF assms(1)] by (intro ext)
  show ?thesis unfolding persisted_marker_def assms(2) st by (rule refl)
qed

lemma Ensure_success_stale:
  assumes "\<not> fst (installedAsstesMatchAppVersion E w)" and "fst (Ensure E w) = Inr ()"
  shows "\<exists>w4. unreadable w4 = unreadable w \<and> fst (updateAssetVersionFile E w4) = Inr ()
              \<and> snd (Ensure E w) = snd (updateAssetVersionFile E w4)"
proof -
  obtain w1 where g1: "installedAsstesMatchAppVersion E w = (False, w1)"
    using assms(1) by (cases "installedAsstesMatchAppVersion E w") auto
  have u1: "unreadable w1 = unreadable w" using gate_unreadable[of E w] g1 by simp
  obtain r2 w2 where m: "os_MkdirAll (os_path (DashboardAssetsDir E)) w1 = (r2, w2)"
    by (cases "os_MkdirAll (os_path (DashboardAssetsDir E)) w1")
  have u2: "unreadable w2 = unreadable w" using os_MkdirAll_unreadable[OF m] u1 by simp
  from assms(2) g1 m obtain u where r2: "r2 = Inr u"
    by (cases r2) (auto simp: Ensure_def EnsureDashboardAssetsDir_def)
  from assms(2) g1 m r2 obtain gz where a: "staticFS E embeddedAssetArchiveName = Some gz"
    by (cases "staticFS E embeddedAssetArchiveName")
       (auto simp: Ensure_def EnsureDashboardAssetsDir_def staticFS_Open_def)
  define w3 where "w3 = emit (EvOpenEmbedded embeddedAssetArchiveName) w2"
  obtain r4 w4 where x: "extractTarGz gz (DashboardAssetsDir E) w3 = (r4, w4)"
    by (cases "extractTarGz gz (DashboardAssetsDir E) w3")
  have u4: "unreadable w4 = unreadable w"
    using extractTarGz_unreadable[of gz "DashboardAssetsDir E" w3] x u2 by (simp add: w3_def)
  from assms(2) g1 m r2 a x obtain u' where r4: "r4 = Inr u'"
    by (cases r4) (auto simp: Ensure_def EnsureDashboardAssetsDir_def staticFS_Open_def w3_def)
  obtain r5 w5 where up: "updateAssetVersionFile E w4 = (r5, w5)"
    by (cases "updateAssetVersionFile E w4")
  have e: "Ensure E w = (case r5 of Inl err \<Rightarrow> (Inl (WrapWithMessage err ''could not update dashboard assets version file''), w5) | Inr _ \<Rightarrow> (Inr (), w5))"
    using g1 m r2 a x r4 up
    by (simp add: Ensure_def EnsureDashboardAssetsDir_def staticFS_Open_def w3_def)
  then have "r5 = Inr ()" using assms(2) by (cases r5) auto
  then show ?thesis using e up u4 by (intro exI[of _ w4]) simp
qed


lemma marker_after_success:
  assumes "version_string (AppVersion E)"
      and "fst (Ensure E w) = Inr ()"
      and "case os_path (ReportAssetsVersionFilePath E) of
             None \<Rightarrow> True | Some q \<Rightarrow> \<not> unreadable w q"
  shows "\<exists>m. persisted_marker E (snd (Ensure E w)) = Marker m \<and> Version m = AppVersion E"
proof (cases "fst (installedAsstesMatchAppVersion E w)")
  case True
  have ne: "AppVersion E \<noteq> []" using assms(1) by (simp add: version_string_def)
  have e: "snd (Ensure E w) = snd (installedAsstesMatchAppVersion E w)"
    using Ensure_fresh[OF True] by simp
  have "persisted_marker E (snd (Ensure E w)) = persisted_marker E w"
    unfolding e by (rule persisted_marker_cong) simp_all
  moreover have "\<exists>m. persisted_marker E w = Marker m \<and> Version m = AppVersion E"
    using True ne by (cases "persisted_marker E w") (simp_all add: gate_cases)
  ultimately show ?thesis by simp
next
  case False
  from Ensure_success_stale[OF False assms(2)] obtain w4 where
    u: "unreadable w4 = unreadable w" and up: "fst (updateAssetVersionFile E w4) = Inr ()"
    and e: "snd (Ensure E w) = snd (updateAssetVersionFile E w4)" by blast
  have r: "case os_path (ReportAssetsVersionFilePath E) of
             None \<Rightarrow> True | Some q \<Rightarrow> \<not> unreadable w4 q"
    unfolding u using assms(3) .
  show ?thesis
    using update_done[OF up version_string_plain[OF assms(1)] r] e by simp
qed

text \<open>
  Claim C8. After a run of \<open>Ensure\<close> that returned success, for a version string and a
  marker file that may be read, the next run with the same version takes the fast path:
  it returns success, leaves the file tree as it is, and its only events are the \<open>Stat\<close>
  and the \<open>ReadFile\<close> of the gate, neither of which writes.
\<close>

theorem Ensure_idempotent:
  assumes "version_string (AppVersion E)"
      and "fst (Ensure E w) = Inr ()"
      and "case os_path (ReportAssetsVersionFilePath E) of
             None \<Rightarrow> True | Some q \<Rightarrow> \<not> unreadable w q"
  shows "Ensure E (snd (Ensure E w)) =
           (Inr (), (snd (Ensure E w))\<lparr>trace := trace (snd (Ensure E w)) @ gate_events E\<rparr>)
         \<and> files (snd (Ensure E (snd (Ensure E w)))) = files (snd (Ensure E w))
         \<and> new_events (snd (Ensure E w)) (snd (Ensure E (snd (Ensure E w)))) = gate_events E
         \<and> list_all (\<lambda>ev. \<not> is_write ev)
             (new_events (snd (Ensure E w)) (snd (Ensure E (snd (Ensure E w)))))"
proof -
  define w1 where "w1 = snd (Ensure E w)"
  obtain m where m: "persisted_marker E w1 = Marker m" "Version m = AppVersion E"
    using marker_after_success[OF assms] by (auto simp: w1_def)
  have g: "fst (installedAsstesMatchAppVersion E w1)" using m by (simp add: gate_cases)
  have e: "Ensure E w1 = (Inr (), w1\<lparr>trace := trace w1 @ gate_events E\<rparr>)"
    using Ensure_fresh[OF g] gate_world_fresh[OF m(1)] by simp
  show ?thesis
    unfolding w1_def[symmetric] e by (simp add: new_events_def gate_events_def)
qed


lemma ensure_world0: "fst (Ensure env0 world0) = Inr ()"
  by (simp add: eval_defs escape_ascii_def)

theorem Ensure_idempotent_witness:
  "version_string (AppVersion env0)
   \<and> fst (Ensure env0 world0) = Inr ()
   \<and> (case os_path (ReportAssetsVersionFilePath env0) of
         None \<Rightarrow> True | Some q \<Rightarrow> \<not> unreadable world0 q)
   \<and> fst (Ensure env0 (snd (Ensure env0 world0))) = Inr ()
   \<and> files (snd (Ensure env0 (snd (Ensure env0 world0)))) = files (snd (Ensure env0 world0))
   \<and> new_events (snd (Ensure env0 world0)) (snd (Ensure env0 (snd (Ensure env0 world0))))
       = gate_events env0"
proof -
  have h1: "version_string (AppVersion env0)" using version_string_123 by (simp add: env0_def)
  have h3: "case os_path (ReportAssetsVersionFilePath env0) of
         None \<Rightarrow> True | Some q \<Rightarrow> \<not> unreadable world0 q"
    by (simp add: os_path_marker0 world0_def)
  show ?thesis using Ensure_idempotent[OF h1 ensure_world0 h3] h1 ensure_world0 h3
    by (simp add: new_events_def)
qed

subsection \<open>What an extraction leaves in place\<close>

lemma mkdir_walk_keeps_files:
  "mkdir_walk r pre cs w = (res, w') \<Longrightarrow> files w q = Some n \<Longrightarrow> files w' q = Some n"
proof (induction cs arbitrary: pre w)
  case Nil
  then show ?case by (auto simp: node_at_def split: option.splits node.splits if_splits)
next
  case (Cons c cs)
  show ?case
  proof (cases "node_at w (r, pre)")
    case None
    show ?thesis
    proof (cases "deny w (r, pre)")
      case True
      then show ?thesis using None Cons.prems by simp
    next
      case False
      have "q \<noteq> (r, pre)" using None Cons.prems(2) by (auto simp: node_at_def split: if_splits)
      then have "files (w\<lparr>files := (files w)((r, pre) \<mapsto> Dir)\<rparr>) q = Some n"
        using Cons.prems(2) by simp
      then show ?thesis using Cons.IH[of "pre @ [c]" "w\<lparr>files := (files w)((r, pre) \<mapsto> Dir)\<rparr>"]
          Cons.prems(1) None False by simp
    qed
  next
    case (Some nd)
    then show ?thesis using Cons by (cases nd) auto
  qed
qed

lemma os_MkdirAll_keeps:
  "os_MkdirAll p w = (res, w') \<Longrightarrow> files w q = Some n \<Longrightarrow> files w' q = Some n"
  by (auto simp: os_MkdirAll_def split: option.splits dest: mkdir_walk_keeps_files)

lemma os_Create_keeps:
  "os_Create p w = (res, w') \<Longrightarrow> files w q = Some n \<Longrightarrow> p \<noteq> Some q \<Longrightarrow> files w' q = Some n"
  by (auto simp: os_Create_def open_trunc_def split: option.splits sum.splits node.splits if_splits)

lemma os_Create_file_stays:
  "os_Create p w = (res, w') \<Longrightarrow> files w q = Some (File d) \<Longrightarrow> \<exists>d'. files w' q = Some (File d')"
  by (auto simp: os_Create_def open_trunc_def node_at_def
      split: option.splits sum.splits node.splits if_splits)

lemma io_Copy_keeps:
  "io_Copy f d rerr w = (res, w') \<Longrightarrow> files w q = Some n \<Longrightarrow> f \<noteq> q \<Longrightarrow> files w' q = Some n"
  by (auto simp: io_Copy_def file_Write_def split: option.splits sum.splits if_splits prod.splits)

lemma io_Copy_file_stays:
  "io_Copy f d rerr w = (res, w') \<Longrightarrow> files w q = Some (File x) \<Longrightarrow> \<exists>x'. files w' q = Some (File x')"
  by (auto simp: io_Copy_def file_Write_def split: option.splits sum.splits if_splits prod.splits)


lemma extract_loop_invariant:
  assumes em: "\<And>s w. I w \<Longrightarrow> I (emit (EvSetStatus s) w)"
      and mk: "\<And>p w res w'. os_MkdirAll p w = (res, w') \<Longrightarrow> I w \<Longrightarrow> I w'"
      and cr: "\<And>hdr d rerr w res w'. Entry hdr d rerr \<in> set xs \<Longrightarrow> Typeflag hdr = TypeReg \<Longrightarrow>
                 os_Create (Join dest (Name hdr)) w = (res, w') \<Longrightarrow> I w \<Longrightarrow> I w'"
      and cp: "\<And>hdr d rerr f w res w'. Entry hdr d rerr \<in> set xs \<Longrightarrow> Typeflag hdr = TypeReg \<Longrightarrow>
                 Join dest (Name hdr) = Some f \<Longrightarrow> io_Copy f d rerr w = (res, w') \<Longrightarrow> I w \<Longrightarrow> I w'"
  shows "I w \<Longrightarrow> I (snd (extract_loop xs dest w))"
  using cr cp
proof (induction xs arbitrary: w)
  case Nil
  then show ?case by simp
next
  case (Cons x xs)
  have IH: "I w' \<Longrightarrow> I (snd (extract_loop xs dest w'))" for w'
    by (rule Cons.IH) (use Cons.prems in \<open>auto intro: Cons.prems(2,3)\<close>)
  show ?case
  proof (cases x)
    case (Entry hdr d rerr)
    show ?thesis
    proof (cases "Typeflag hdr = TypeDir")
      case True
      obtain r w1 where m: "os_MkdirAll (Join dest (Name hdr)) w = (r, w1)"
        by (cases "os_MkdirAll (Join dest (Name hdr)) w")
      have "I w1" using mk[OF m Cons.prems(1)] .
      then show ?thesis using Entry True m IH[of w1] by (cases r) simp_all
    next
      case False
      show ?thesis
      proof (cases "Typeflag hdr = TypeReg")
        case nreg: False
        then show ?thesis using Entry False Cons.prems(1) by simp
      next
        case True
        define w0 where "w0 = emit (EvSetStatus (''Extracting '' @ Name hdr @ ellipsis)) w"
        have i0: "I w0" unfolding w0_def by (rule em) (rule Cons.prems(1))
        obtain r w1 where c: "os_Create (Join dest (Name hdr)) w0 = (r, w1)"
          by (cases "os_Create (Join dest (Name hdr)) w0")
        have i1: "I w1" by (rule Cons.prems(2)[of hdr d rerr, OF _ True c i0]) (simp add: Entry)
        show ?thesis
        proof (cases r)
          case (Inl e)
          then show ?thesis using Entry False True c i1 by (simp add: w0_def)
        next
          case (Inr f)
          have jf: "Join dest (Name hdr) = Some f" using os_Create_handle c Inr by fastforce
          obtain r2 w2 where cpy: "io_Copy f d rerr w1 = (r2, w2)" by (cases "io_Copy f d rerr w1")
          have i2: "I w2" by (rule Cons.prems(3)[of hdr d rerr, OF _ True jf cpy i1]) (simp add: Entry)
          show ?thesis using Entry False True c Inr cpy i2 IH[of w2]
            by (cases r2) (simp_all add: w0_def)
        qed
      qed
    qed
  next
    case NilHeader
    then show ?thesis using IH[OF Cons.prems(1)] by simp
  next
    case (NextError e)
    then show ?thesis using Cons.prems(1) by simp
  qed
qed

lemma file_targets_mem:
  "Entry hdr d rerr \<in> set xs \<Longrightarrow> Typeflag hdr = TypeReg \<Longrightarrow>
   Join dest (Name hdr) \<in> set (file_targets dest xs)"
proof (induction xs)
  case Nil
  then show ?case by simp
next
  case (Cons x xs)
  then show ?case by (cases x) auto
qed

lemma extract_loop_keeps:
  assumes "files w q = Some n" and "Some q \<notin> set (file_targets dest xs)"
  shows "files (snd (extract_loop xs dest w)) q = Some n"
proof (rule extract_loop_invariant[where I = "\<lambda>w. files w q = Some n"])
  show "files w q = Some n" by (rule assms(1))
next
  fix s and w :: world assume "files w q = Some n"
  then show "files (emit (EvSetStatus s) w) q = Some n" by simp
next
  fix p and w w' :: world and res :: "error + unit" assume "os_MkdirAll p w = (res, w')" "files w q = Some n"
  then show "files w' q = Some n" by (rule os_MkdirAll_keeps)
next
  fix hdr :: header and d rerr and w w' :: world and res :: "error + path"
  assume a: "Entry hdr d rerr \<in> set xs" "Typeflag hdr = TypeReg"
    "os_Create (Join dest (Name hdr)) w = (res, w')" "files w q = Some n"
  have "Join dest (Name hdr) \<noteq> Some q" using file_targets_mem[OF a(1,2), of dest] assms(2) by auto
  then show "files w' q = Some n" using os_Create_keeps[OF a(3,4)] by simp
next
  fix hdr :: header and d rerr f and w w' :: world and res :: "error + nat"
  assume a: "Entry hdr d rerr \<in> set xs" "Typeflag hdr = TypeReg" "Join dest (Name hdr) = Some f"
    "io_Copy f d rerr w = (res, w')" "files w q = Some n"
  have "f \<noteq> q" using file_targets_mem[OF a(1,2), of dest] a(3) assms(2) by auto
  then show "files w' q = Some n" using io_Copy_keeps[OF a(4,5)] by simp
qed

lemma extract_loop_file_stays:
  assumes "files w q = Some (File x)"
  shows "\<exists>x'. files (snd (extract_loop xs dest w)) q = Some (File x')"
proof (rule extract_loop_invariant[where I = "\<lambda>w. \<exists>x'. files w q = Some (File x')"])
  show "\<exists>x'. files w q = Some (File x')" using assms by blast
next
  fix s and w :: world assume "\<exists>x'. files w q = Some (File x')"
  then show "\<exists>x'. files (emit (EvSetStatus s) w) q = Some (File x')" by simp
next
  fix p and w w' :: world and res :: "error + unit" assume "os_MkdirAll p w = (res, w')" "\<exists>x'. files w q = Some (File x')"
  then show "\<exists>x'. files w' q = Some (File x')" using os_MkdirAll_keeps by blast
next
  fix hdr :: header and d rerr and w w' :: world and res :: "error + path"
  assume "os_Create (Join dest (Name hdr)) w = (res, w')" "\<exists>x'. files w q = Some (File x')"
  then show "\<exists>x'. files w' q = Some (File x')" using os_Create_file_stays by blast
next
  fix hdr :: header and d rerr f and w w' :: world and res :: "error + nat"
  assume "io_Copy f d rerr w = (res, w')" "\<exists>x'. files w q = Some (File x')"
  then show "\<exists>x'. files w' q = Some (File x')" using io_Copy_file_stays by blast
qed


lemma io_Copy_written: "io_Copy f d rerr w = (Inr n, w') \<Longrightarrow> \<exists>x. files w' f = Some (File x)"
  by (auto simp: io_Copy_def file_Write_def split: option.splits sum.splits if_splits prod.splits)

lemma written_files_present:
  "extract_loop pre dest w = (Inr u, w1) \<Longrightarrow> Entry hdr d rerr \<in> set pre \<Longrightarrow>
   Typeflag hdr = TypeReg \<Longrightarrow>
   \<exists>f x. Join dest (Name hdr) = Some f \<and> files w1 f = Some (File x)"
proof (induction pre arbitrary: w)
  case Nil
  then show ?case by simp
next
  case (Cons y pre)
  show ?case
  proof (cases y)
    case (Entry h2 d2 rerr2)
    show ?thesis
    proof (cases "Typeflag h2 = TypeDir")
      case True
      obtain r w' where m: "os_MkdirAll (Join dest (Name h2)) w = (r, w')"
        by (cases "os_MkdirAll (Join dest (Name h2)) w")
      have ne: "y \<noteq> Entry hdr d rerr" using Entry True Cons.prems(3) by (auto simp: TypeDir_def TypeReg_def)
      show ?thesis
      proof (cases r)
        case (Inl e)
        then show ?thesis using Cons.prems(1) Entry True m by simp
      next
        case (Inr v)
        then have "extract_loop pre dest w' = (Inr u, w1)" using Cons.prems(1) Entry True m by simp
        then show ?thesis using Cons.IH[of w'] Cons.prems(2,3) ne by auto
      qed
    next
      case False
      show ?thesis
      proof (cases "Typeflag h2 = TypeReg")
        case nreg: False
        then show ?thesis using Cons.prems(1) Entry False by simp
      next
        case True
        define w0 where "w0 = emit (EvSetStatus (''Extracting '' @ Name h2 @ ellipsis)) w"
        obtain r w' where c: "os_Create (Join dest (Name h2)) w0 = (r, w')"
          by (cases "os_Create (Join dest (Name h2)) w0")
        show ?thesis
        proof (cases r)
          case (Inl e)
          then show ?thesis using Cons.prems(1) Entry False True c by (simp add: w0_def)
        next
          case (Inr f)
          have jf: "Join dest (Name h2) = Some f" using os_Create_handle c Inr by fastforce
          obtain r2 w2 where cpy: "io_Copy f d2 rerr2 w' = (r2, w2)" by (cases "io_Copy f d2 rerr2 w'")
          show ?thesis
          proof (cases r2)
            case (Inl e)
            then show ?thesis using Cons.prems(1) Entry False True c \<open>r = Inr f\<close> cpy by (simp add: w0_def)
          next
            case r2: (Inr n)
            have rest: "extract_loop pre dest w2 = (Inr u, w1)"
              using Cons.prems(1) Entry False True c Inr cpy r2 by (simp add: w0_def)
            show ?thesis
            proof (cases "y = Entry hdr d rerr")
              case same: True
              obtain x where "files w2 f = Some (File x)" using io_Copy_written cpy r2 by blast
              then obtain x' where "files (snd (extract_loop pre dest w2)) f = Some (File x')"
                using extract_loop_file_stays by blast
              then show ?thesis using same Entry jf rest by auto
            next
              case False
              then show ?thesis using Cons.IH[OF rest] Cons.prems(2,3) by auto
            qed
          qed
        qed
      qed
    qed
  next
    case NilHeader
    then show ?thesis using Cons by auto
  next
    case (NextError e)
    then show ?thesis using Cons.prems(1) by simp
  qed
qed

lemma loop_start_keeps:
  "files w q = Some n \<Longrightarrow> files (loop_start E w) q = Some n"
proof -
  assume a: "files w q = Some n"
  obtain r w2 where m: "os_MkdirAll (os_path (DashboardAssetsDir E)) (snd (installedAsstesMatchAppVersion E w)) = (r, w2)"
    by (cases "os_MkdirAll (os_path (DashboardAssetsDir E)) (snd (installedAsstesMatchAppVersion E w))")
  have "files w2 q = Some n" using os_MkdirAll_keeps[OF m] a by simp
  then show ?thesis using m by (cases r) (simp_all add: loop_start_def EnsureDashboardAssetsDir_def)
qed

lemma loop_start_trace:
  "\<exists>evs. trace (loop_start E w) = trace w @ evs \<and> list_all (\<lambda>ev. \<not> is_WriteFile ev) evs"
proof -
  obtain e1 where t1: "trace (snd (installedAsstesMatchAppVersion E w)) = trace w @ e1"
    and n1: "list_all (\<lambda>e. \<not> is_write e) e1"
    using gate_trace[of E w] by auto
  have n1': "list_all (\<lambda>ev. \<not> is_WriteFile ev) e1"
  proof -
    have "\<not> is_WriteFile ev" if "\<not> is_write ev" for ev using that by (cases ev) auto
    then show ?thesis using n1 by (simp add: list_all_iff)
  qed
  obtain r w2 where m: "os_MkdirAll (os_path (DashboardAssetsDir E)) (snd (installedAsstesMatchAppVersion E w)) = (r, w2)"
    by (cases "os_MkdirAll (os_path (DashboardAssetsDir E)) (snd (installedAsstesMatchAppVersion E w))")
  have "trace w2 = trace w @ e1 @ [EvMkdirAll (os_path (DashboardAssetsDir E))]"
    using trace_os_MkdirAll[OF m] t1 by simp
  then show ?thesis using m n1'
    by (cases r) (simp_all add: loop_start_def EnsureDashboardAssetsDir_def)
qed


lemma extract_loop_no_WriteFile:
  "\<exists>evs. trace (snd (extract_loop xs dest w)) = trace w @ evs
         \<and> list_all (\<lambda>ev. \<not> is_WriteFile ev) evs"
proof (rule extract_loop_invariant[where
        I = "\<lambda>w'. \<exists>evs. trace w' = trace w @ evs \<and> list_all (\<lambda>ev. \<not> is_WriteFile ev) evs"])
  show "\<exists>evs. trace w = trace w @ evs \<and> list_all (\<lambda>ev. \<not> is_WriteFile ev) evs" by simp
next
  fix s and w' :: world
  assume "\<exists>evs. trace w' = trace w @ evs \<and> list_all (\<lambda>ev. \<not> is_WriteFile ev) evs"
  then show "\<exists>evs. trace (emit (EvSetStatus s) w') = trace w @ evs
                   \<and> list_all (\<lambda>ev. \<not> is_WriteFile ev) evs" by auto
next
  fix p and w' w'' :: world and res :: "error + unit"
  assume "os_MkdirAll p w' = (res, w'')"
    "\<exists>evs. trace w' = trace w @ evs \<and> list_all (\<lambda>ev. \<not> is_WriteFile ev) evs"
  then show "\<exists>evs. trace w'' = trace w @ evs \<and> list_all (\<lambda>ev. \<not> is_WriteFile ev) evs"
    using trace_os_MkdirAll by fastforce
next
  fix hdr :: header and w' w'' :: world and res :: "error + path"
  assume "os_Create (Join dest (Name hdr)) w' = (res, w'')"
    "\<exists>evs. trace w' = trace w @ evs \<and> list_all (\<lambda>ev. \<not> is_WriteFile ev) evs"
  then show "\<exists>evs. trace w'' = trace w @ evs \<and> list_all (\<lambda>ev. \<not> is_WriteFile ev) evs"
    using trace_os_Create by fastforce
next
  fix d rerr f and w' w'' :: world and res :: "error + nat"
  assume "io_Copy f d rerr w' = (res, w'')"
    "\<exists>evs. trace w' = trace w @ evs \<and> list_all (\<lambda>ev. \<not> is_WriteFile ev) evs"
  then show "\<exists>evs. trace w'' = trace w @ evs \<and> list_all (\<lambda>ev. \<not> is_WriteFile ev) evs"
    using trace_io_Copy by fastforce
qed

lemma Ensure_stale_unfold:
  assumes g: "\<not> fst (installedAsstesMatchAppVersion E w)"
      and arch: "staticFS E embeddedAssetArchiveName = Some (TarGz xs)"
      and dir: "fst (os_MkdirAll (os_path (DashboardAssetsDir E)) w) = Inr ()"
  shows "Ensure E w =
           (case extract_loop xs (DashboardAssetsDir E) (loop_start E w) of
              (Inl err, w4) \<Rightarrow>
                (Inl (WrapWithMessage err ''could not extract embedded dashboard assets archive''),
                 emit (EvLog ''dashboardassets.extractTarGz end'') w4)
            | (Inr u, w4) \<Rightarrow>
                (case updateAssetVersionFile E (emit (EvLog ''dashboardassets.extractTarGz end'') w4) of
                   (Inl err, w5) \<Rightarrow>
                     (Inl (WrapWithMessage err ''could not update dashboard assets version file''), w5)
                 | (Inr u', w5) \<Rightarrow> (Inr (), w5)))"
proof -
  obtain w1 where g1: "installedAsstesMatchAppVersion E w = (False, w1)"
    using g by (cases "installedAsstesMatchAppVersion E w") auto
  have w1: "files w1 = files w" "deny w1 = deny w"
    using gate_files[of E w] gate_deny[of E w] g1 by simp_all
  obtain r2 w2 where m: "os_MkdirAll (os_path (DashboardAssetsDir E)) w1 = (r2, w2)"
    by (cases "os_MkdirAll (os_path (DashboardAssetsDir E)) w1")
  have "fst (os_MkdirAll (os_path (DashboardAssetsDir E)) w1) = Inr ()"
    using os_MkdirAll_indep[OF w1, of "os_path (DashboardAssetsDir E)"] dir by simp
  then have r2: "r2 = Inr ()" using m by simp
  have ls: "loop_start E w = emit (EvLog ''dashboardassets.extractTarGz start'')
              (emit (EvOpenEmbedded embeddedAssetArchiveName) w2)"
    using g1 m r2 by (simp add: loop_start_def EnsureDashboardAssetsDir_def)
  show ?thesis
    unfolding ls using g1 m r2 arch
    by (simp add: Ensure_def EnsureDashboardAssetsDir_def staticFS_Open_def extractTarGz_def
        gzip_NewReader_def split: prod.splits sum.splits)
qed


text \<open>
  Claim C4. \<open>Ensure\<close> is past the gate, the first entries \<open>pre\<close> of the archive have
  been installed without error, leaving the world \<open>w1\<close>, and the extraction then fails with
  the error \<open>e\<close> on what follows. Then \<open>Ensure\<close> returns \<open>e\<close>, wrapped with the message
  of the extraction stage. Nothing is rolled back: every regular file of \<open>pre\<close> is a file
  in \<open>w1\<close>, every file of \<open>w1\<close> is still a file in the end, and every node of \<open>w1\<close> is
  unchanged in the end unless a later regular-file entry is written to its path. The marker
  is not written: no event of the run is an \<open>os.WriteFile\<close>, and whatever existed before the
  run, the marker file among it, is unchanged unless a regular-file entry of the archive goes
  to its path.
\<close>

theorem partial_extraction_kept:
  assumes "\<not> fst (installedAsstesMatchAppVersion E w)"
      and "staticFS E embeddedAssetArchiveName = Some (TarGz (pre @ rest))"
      and "fst (os_MkdirAll (os_path (DashboardAssetsDir E)) w) = Inr ()"
      and "extract_loop pre (DashboardAssetsDir E) (loop_start E w) = (Inr (), w1)"
      and "fst (extract_loop rest (DashboardAssetsDir E) w1) = Inl e"
  shows "fst (Ensure E w) =
           Inl (WrapWithMessage e ''could not extract embedded dashboard assets archive'')
         \<and> (\<forall>hdr d rerr. Entry hdr d rerr \<in> set pre \<and> Typeflag hdr = TypeReg \<longrightarrow>
               (\<exists>f x. Join (DashboardAssetsDir E) (Name hdr) = Some f \<and> files w1 f = Some (File x)))
         \<and> (\<forall>q x. files w1 q = Some (File x) \<longrightarrow>
               (\<exists>x'. files (snd (Ensure E w)) q = Some (File x')))
         \<and> (\<forall>q n. files w1 q = Some n \<and> Some q \<notin> set (file_targets (DashboardAssetsDir E) rest) \<longrightarrow>
               files (snd (Ensure E w)) q = Some n)
         \<and> list_all (\<lambda>ev. \<not> is_WriteFile ev) (new_events w (snd (Ensure E w)))
         \<and> (\<forall>q n. files w q = Some n
                 \<and> Some q \<notin> set (file_targets (DashboardAssetsDir E) (pre @ rest)) \<longrightarrow>
               files (snd (Ensure E w)) q = Some n)"
proof -
  define dest where "dest = DashboardAssetsDir E"
  obtain r4 w4 where l: "extract_loop rest dest w1 = (r4, w4)" by (cases "extract_loop rest dest w1")
  have r4: "r4 = Inl e" using assms(5) l by (simp add: dest_def)
  have whole: "extract_loop (pre @ rest) dest (loop_start E w) = (Inl e, w4)"
    using assms(4) l r4 by (simp add: extract_loop_append dest_def)
  have en: "Ensure E w =
          (Inl (WrapWithMessage e ''could not extract embedded dashboard assets archive''),
           emit (EvLog ''dashboardassets.extractTarGz end'') w4)"
    using Ensure_stale_unfold[OF assms(1,2,3)] whole by (simp add: dest_def)
  have fin: "files (snd (Ensure E w)) = files w4" using en by simp
  have w4: "w4 = snd (extract_loop rest dest w1)" using l by simp
  have a: "\<exists>f x. Join dest (Name hdr) = Some f \<and> files w1 f = Some (File x)"
    if "Entry hdr d rerr \<in> set pre" "Typeflag hdr = TypeReg" for hdr d rerr
    using written_files_present[OF assms(4)[folded dest_def] that] .
  have b: "\<exists>x'. files w4 q = Some (File x')" if "files w1 q = Some (File x)" for q x
    unfolding w4 using extract_loop_file_stays[OF that] .
  have c: "files w4 q = Some n"
    if "files w1 q = Some n" "Some q \<notin> set (file_targets dest rest)" for q n
    unfolding w4 using extract_loop_keeps[OF that] .
  have d: "list_all (\<lambda>ev. \<not> is_WriteFile ev) (new_events w (snd (Ensure E w)))"
  proof -
    obtain e1 where t1: "trace (loop_start E w) = trace w @ e1"
      and n1: "list_all (\<lambda>ev. \<not> is_WriteFile ev) e1"
      using loop_start_trace by blast
    obtain e2 where t2: "trace (snd (extract_loop (pre @ rest) dest (loop_start E w)))
                          = trace (loop_start E w) @ e2"
      and n2: "list_all (\<lambda>ev. \<not> is_WriteFile ev) e2"
      using extract_loop_no_WriteFile by blast
    have "trace w4 = trace w @ e1 @ e2" using t1 t2 whole by simp
    then show ?thesis using en n1 n2 by (simp add: new_events_def)
  qed
  have f: "files w4 q = Some n"
    if "files w q = Some n" "Some q \<notin> set (file_targets dest (pre @ rest))" for q n
  proof -
    have "files (loop_start E w) q = Some n" using loop_start_keeps[OF that(1)] .
    from extract_loop_keeps[OF this that(2)] show ?thesis using whole by simp
  qed
  show ?thesis
    unfolding fin dest_def[symmetric] using en a b c d f
    by (simp add: dest_def[symmetric]) blast
qed


lemmas full_defs = env_full_def world_full_def c_entry_def loop_start_def

theorem partial_extraction_kept_witness:
  "\<not> fst (installedAsstesMatchAppVersion env_full world_full)
   \<and> staticFS env_full embeddedAssetArchiveName = Some (TarGz (archive0 @ [c_entry]))
   \<and> fst (os_MkdirAll (os_path (DashboardAssetsDir env_full)) world_full) = Inr ()
   \<and> fst (extract_loop archive0 (DashboardAssetsDir env_full) (loop_start env_full world_full)) = Inr ()
   \<and> fst (extract_loop [c_entry] (DashboardAssetsDir env_full)
            (snd (extract_loop archive0 (DashboardAssetsDir env_full) (loop_start env_full world_full))))
       = Inl ENOSPC
   \<and> fst (Ensure env_full world_full) =
       Inl (WrapWithMessage ENOSPC ''could not extract embedded dashboard assets archive'')
   \<and> (\<exists>x'. files (snd (Ensure env_full world_full)) (True, [''pp'', ''assets'', ''a'', ''b.txt''])
              = Some (File x'))
   \<and> list_all (\<lambda>ev. \<not> is_WriteFile ev) (new_events world_full (snd (Ensure env_full world_full)))"
proof -
  define w1 where "w1 = snd (extract_loop archive0 (DashboardAssetsDir env_full) (loop_start env_full world_full))"
  have h1: "\<not> fst (installedAsstesMatchAppVersion env_full world_full)"
    by (simp add: full_defs eval_defs)
  have h2: "staticFS env_full embeddedAssetArchiveName = Some (TarGz (archive0 @ [c_entry]))"
    by (simp add: env_full_def embeddedAssetArchiveName_def)
  have h3: "fst (os_MkdirAll (os_path (DashboardAssetsDir env_full)) world_full) = Inr ()"
    by (simp add: full_defs eval_defs)
  have h4': "fst (extract_loop archive0 (DashboardAssetsDir env_full) (loop_start env_full world_full)) = Inr ()"
    by (simp add: full_defs eval_defs)
  have h4: "extract_loop archive0 (DashboardAssetsDir env_full) (loop_start env_full world_full) = (Inr (), w1)"
    using h4' by (simp add: w1_def prod_eq_iff)
  have h5: "fst (extract_loop [c_entry] (DashboardAssetsDir env_full) w1) = Inl ENOSPC"
    unfolding w1_def by (simp add: full_defs eval_defs)
  have b: "files w1 (True, [''pp'', ''assets'', ''a'', ''b.txt'']) = Some (File ''hi'')"
    unfolding w1_def by (simp add: full_defs eval_defs)
  show ?thesis
    using partial_extraction_kept[OF h1 h2 h3 h4 h5] h1 h2 h3 h4' h5 b
    unfolding w1_def by blast
qed

end
